theory Spec2Isabelle
  imports Complex_Main
begin

section \<open>Data model of egnyte/resources.py\<close>

text \<open>
  The source is Python 2: a byte string (\<open>six.binary_type\<close>) is a \<open>str\<close>, modelled as a
  \<open>string\<close>. Sizes, positions and retry counters are Python integers, modelled as \<open>int\<close>.
\<close>

datatype error =
    ChecksumError string "(string \<times> int) list"
  | TransferFailed
  | KeyError string
  | ValueError string
  | UnboundLocalError string
  | IOError string
  | AttributeError string

text \<open>A file-like object: its bytes and its current position.\<close>

record fileobj =
  content :: string
  pos :: nat

text \<open>The first argument of \<open>File.upload\<close>: a raw byte string or a file-like object.\<close>

datatype source = Binary string | FileObj fileobj

definition BytesIO :: "string \<Rightarrow> fileobj" where
  "BytesIO b = \<lparr>content = b, pos = 0\<rparr>"

text \<open>
  Modelled from the spec: \<open>base.get_file_size\<close> lives in egnyte/base.py, not in
  resources.py. The spec says the size is found by probing the current position and the
  end of the source and restoring the position, so the file object is left as it was and
  the result is the offset of its end.
\<close>

definition get_file_size :: "fileobj \<Rightarrow> int" where
  "get_file_size f = int (length (content f))"

text \<open>
  Modelled from the spec: \<open>base._FileChunk\<close> lives in egnyte/base.py, not in
  resources.py. A chunk is a view over the byte range from \<open>position\<close> to
  \<open>position + size\<close> of a content source; its digest is a function of exactly those bytes.
\<close>

record FileChunk =
  fp :: fileobj
  position :: int
  size' :: int  \<comment> \<open>the attribute \<open>size\<close>\<close>

definition chunk_data :: "FileChunk \<Rightarrow> string" where
  "chunk_data c = take (nat (size' c)) (drop (nat (position c)) (content (fp c)))"

text \<open>
  \<open>chunk.sha.hexdigest()\<close>: the SHA-512 function of \<open>hashlib\<close> is a parameter \<open>H\<close> of the
  model, from bytes to the hexadecimal digest.
\<close>

definition hexdigest :: "(string \<Rightarrow> string) \<Rightarrow> FileChunk \<Rightarrow> string" where
  "hexdigest H c = H (chunk_data c)"

text \<open>
  Modelled from the spec: \<open>base.split_file_into_chunks\<close> lives in egnyte/base.py, not in
  resources.py.
  The spec asks for an ordered sequence of chunks of a fixed maximum size, in position
  order, the last one possibly smaller. No such sequence exists for a chunk size that is
  not positive; the model yields no chunk there.
\<close>

function split_from :: "fileobj \<Rightarrow> int \<Rightarrow> int \<Rightarrow> int \<Rightarrow> FileChunk list" where
  "split_from f p file_size chunk_size =
     (if chunk_size \<le> 0 \<or> file_size \<le> p then []
      else \<lparr>fp = f, position = p, size' = min chunk_size (file_size - p)\<rparr>
             # split_from f (p + min chunk_size (file_size - p)) file_size chunk_size)"
  by pat_completeness auto
termination
  by (relation "measure (\<lambda>(f, p, file_size, chunk_size). nat (file_size - p))") auto

declare split_from.simps [simp del]

definition split_file_into_chunks :: "fileobj \<Rightarrow> int \<Rightarrow> int \<Rightarrow> FileChunk list" where
  "split_file_into_chunks f file_size chunk_size = split_from f 0 file_size chunk_size"

subsection \<open>Requests and responses\<close>

text \<open>A header value of a request: the code stores both strings and integers.\<close>

datatype hval = S string | I int

type_synonym headers = "string \<rightharpoonup> hval"

record request =
  url :: string
  data :: string
  req_headers :: headers

record response =
  status_code :: int
  resp_headers :: "string \<rightharpoonup> string"

type_synonym exchange = "request \<times> response"

text \<open>
  The HTTP client (\<open>self._client\<close>) is a collaborator defined outside resources.py. It
  is a parameter: \<open>get_url\<close> formats a URL template with keyword arguments, \<open>POST\<close> answers a
  request and moves the state \<open>'n\<close> of the network and server on.
\<close>

record 'n client =
  get_url :: "string \<Rightarrow> (string \<times> string) list \<Rightarrow> string"
  POST :: "request \<Rightarrow> 'n \<Rightarrow> response \<times> 'n"

text \<open>
  Modelled from the spec: \<open>exc.default.check_response\<close> lives in egnyte/exc.py, not in
  resources.py.
  The spec describes a status check that fails with \<open>TransferFailed\<close> for a response
  whose status is not 2xx and hands the response back otherwise.
\<close>

definition check_response :: "response \<Rightarrow> error + response" where
  "check_response r =
     (if 200 \<le> status_code r \<and> status_code r < 300 then Inr r else Inl TransferFailed)"

subsection \<open>The format \<open>%d\<close>\<close>

fun string_of_nat :: "nat \<Rightarrow> string" where
  "string_of_nat n =
     (if n < 10 then [char_of (48 + n)]
      else string_of_nat (n div 10) @ [char_of (48 + n mod 10)])"

declare string_of_nat.simps [simp del]

definition fmt_d :: "int \<Rightarrow> string" where
  "fmt_d i = (if i < 0 then CHR ''-'' # string_of_nat (nat (- i)) else string_of_nat (nat i))"

section \<open>class File\<close>

record File =
  path :: string
  upload_chunk_size :: int
  upload_chunk_retries :: int

definition url_content_template :: string where
  "url_content_template = ''pubapi/v1/fs-content%(path)s''"

definition url_content_chunked_template :: string where
  "url_content_chunked_template = ''pubapi/v1/fs-content-chunked%(filepath)s''"

text \<open>The class attributes as the source sets them.\<close>

definition default_File :: "string \<Rightarrow> File" where
  "default_File p = \<lparr>path = p, upload_chunk_size = 100 * (1024 * 1024), upload_chunk_retries = 3\<rparr>"

definition chunk_request :: "string \<Rightarrow> FileChunk \<Rightarrow> headers \<Rightarrow> request" where
  "chunk_request u c hs = \<lparr>url = u, data = chunk_data c, req_headers = hs\<rparr>"

text \<open>
  The \<open>while retries > 0\<close> loop of \<open>_chunked_upload\<close>. It returns the value of \<open>retries\<close>
  and of \<open>r\<close> (unbound, \<open>None\<close>, before the first request) when the loop is left, the
  exchanges it made, and the state of the network.
\<close>

function post_with_retries ::
  "'n client \<Rightarrow> (string \<Rightarrow> string) \<Rightarrow> string \<Rightarrow> FileChunk \<Rightarrow> headers \<Rightarrow> int \<Rightarrow> response option \<Rightarrow> 'n
     \<Rightarrow> (error + int \<times> response option) \<times> exchange list \<times> 'n" where
  "post_with_retries cl H u chunk hs retries r0 n =
     (if 0 < retries then
        (let rq = chunk_request u chunk hs;
             r = fst (POST cl rq n);
             n' = snd (POST cl rq n)
         in case resp_headers r ''x-egnyte-chunk-sha512-checksum'' of
              None \<Rightarrow> (Inl (KeyError ''x-egnyte-chunk-sha512-checksum''), [(rq, r)], n')
            | Some server_sha \<Rightarrow>
                if server_sha = hexdigest H chunk then (Inr (retries, Some r), [(rq, r)], n')
                else (case post_with_retries cl H u chunk hs (retries - 1) (Some r) n' of
                        (res, ex, n'') \<Rightarrow> (res, (rq, r) # ex, n'')))
      else (Inr (retries, r0), [], n))"
  by pat_completeness auto
termination
  by (relation "measure (\<lambda>(cl, H, u, chunk, hs, retries, r0, n). nat retries)") auto

declare post_with_retries.simps [simp del]

text \<open>
  The \<open>for chunk_number, chunk in enumerate(chunks, 1)\<close> loop: \<open>k\<close> is the chunk number,
  \<open>hs\<close> the \<open>headers\<close> dictionary, which the loop keeps from one chunk to the next.
\<close>

fun upload_chunks ::
  "'n client \<Rightarrow> (string \<Rightarrow> string) \<Rightarrow> File \<Rightarrow> string \<Rightarrow> int \<Rightarrow> int \<Rightarrow> FileChunk list \<Rightarrow> headers \<Rightarrow> 'n
     \<Rightarrow> (error + unit) \<times> exchange list \<times> 'n" where
  "upload_chunks cl H f u chunk_count k [] hs n = (Inr (), [], n)"
| "upload_chunks cl H f u chunk_count k (chunk # rest) hs n =
     (let hs1 = hs(''x-egnyte-chunk-num'' \<mapsto> S (fmt_d k), ''content-length'' \<mapsto> I (size' chunk));
          hs2 = (if k = chunk_count then hs1(''x-egnyte-last-chunk'' \<mapsto> S ''true'') else hs1);
          retries = max (upload_chunk_retries f) 1
      in case post_with_retries cl H u chunk hs2 retries None n of
           (Inl e, ex, n') \<Rightarrow> (Inl e, ex, n')
         | (Inr (retries', ro), ex, n') \<Rightarrow>
             if retries' = 0 then
               (Inl (ChecksumError ''Failed to upload file chunk''
                       [(''chunk_number'', k), (''start_position'', position chunk)]), ex, n')
             else
               (case ro of
                  None \<Rightarrow> (Inl (UnboundLocalError ''r''), ex, n')
                | Some r \<Rightarrow>
                    (case check_response r of
                       Inl e \<Rightarrow> (Inl e, ex, n')
                     | Inr _ \<Rightarrow>
                         if k = 1 then
                           (case resp_headers r ''x-egnyte-upload-id'' of
                              None \<Rightarrow> (Inl (KeyError ''x-egnyte-upload-id''), ex, n')
                            | Some uid \<Rightarrow>
                                (case upload_chunks cl H f u chunk_count (k + 1) rest
                                        (hs2(''x-egnyte-upload-id'' \<mapsto> S uid)) n' of
                                   (res, ex', n'') \<Rightarrow> (res, ex @ ex', n'')))
                         else
                           (case upload_chunks cl H f u chunk_count (k + 1) rest hs2 n' of
                              (res, ex', n'') \<Rightarrow> (res, ex @ ex', n'')))))"

definition chunked_upload ::
  "'n client \<Rightarrow> (string \<Rightarrow> string) \<Rightarrow> File \<Rightarrow> fileobj \<Rightarrow> int \<Rightarrow> 'n
     \<Rightarrow> (error + unit) \<times> exchange list \<times> 'n" where
  "chunked_upload cl H f fobj sz n =
     (let u = get_url cl url_content_chunked_template [(''path'', path f)];
          chunks = split_file_into_chunks fobj sz (upload_chunk_size f);
          chunk_count = int (length chunks)
      in upload_chunks cl H f u chunk_count 1 chunks Map.empty n)"

text \<open>
  Lines 83 to 103 of \<open>_chunked_upload\<close>: the upload once the URL \<open>u\<close> is at hand.
\<close>

definition upload_loop ::
  "'n client \<Rightarrow> (string \<Rightarrow> string) \<Rightarrow> File \<Rightarrow> string \<Rightarrow> fileobj \<Rightarrow> int \<Rightarrow> 'n
     \<Rightarrow> (error + unit) \<times> exchange list \<times> 'n" where
  "upload_loop cl H f u fobj sz n =
     (let chunks = split_file_into_chunks fobj sz (upload_chunk_size f);
          chunk_count = int (length chunks)
      in upload_chunks cl H f u chunk_count 1 chunks Map.empty n)"

definition single_upload ::
  "'n client \<Rightarrow> (string \<Rightarrow> string) \<Rightarrow> File \<Rightarrow> fileobj \<Rightarrow> int \<Rightarrow> 'n
     \<Rightarrow> (error + unit) \<times> exchange list \<times> 'n" where
  "single_upload cl H f fobj sz n =
     (let u = get_url cl url_content_template [(''path'', path f)];
          chunk = \<lparr>fp = fobj, position = 0, size' = sz\<rparr>;
          rq = \<lparr>url = u, data = chunk_data chunk, req_headers = [''Content-length'' \<mapsto> I sz]\<rparr>;
          r = fst (POST cl rq n);
          n' = snd (POST cl rq n)
      in case check_response r of
           Inl e \<Rightarrow> (Inl e, [(rq, r)], n')
         | Inr _ \<Rightarrow>
             (case resp_headers r ''X-Sha512-Checksum'' of
                None \<Rightarrow> (Inl (KeyError ''X-Sha512-Checksum''), [(rq, r)], n')
              | Some server_sha \<Rightarrow>
                  if server_sha \<noteq> hexdigest H chunk
                  then (Inl (ChecksumError ''Failed to upload file'' []), [(rq, r)], n')
                  else (Inr (), [(rq, r)], n')))"

text \<open>
  \<open>File.upload(fp, size=None)\<close>. The first two statements wrap a byte string and find the
  size; the branch on the size follows.
\<close>

definition upload_fp :: "source \<Rightarrow> fileobj" where
  "upload_fp src = (case src of Binary b \<Rightarrow> BytesIO b | FileObj fobj \<Rightarrow> fobj)"

definition upload_size :: "source \<Rightarrow> int option \<Rightarrow> int" where
  "upload_size src size_arg =
     (case size_arg of None \<Rightarrow> get_file_size (upload_fp src) | Some s \<Rightarrow> s)"

definition upload ::
  "'n client \<Rightarrow> (string \<Rightarrow> string) \<Rightarrow> File \<Rightarrow> source \<Rightarrow> int option \<Rightarrow> 'n
     \<Rightarrow> (error + unit) \<times> exchange list \<times> 'n" where
  "upload cl H f src size_arg n =
     (let fobj = upload_fp src;
          sz = upload_size src size_arg
      in if sz < upload_chunk_size f then single_upload cl H f fobj sz n
         else chunked_upload cl H f fobj sz n)"

section \<open>class FileDownload\<close>

text \<open>
  \<open>FileDownload\<close> wraps the response object of the \<open>requests\<close> library, which is not
  part of this repository. The object is a parameter: a state \<open>'r\<close> together with the
  methods the class calls on it. An iterator over the body is a finite sequence of items that ends by
  stopping or by raising; every step records the state it leaves the response in.
\<close>

datatype ('a, 'r) iterator =
    StopIteration 'r
  | Raise error 'r
  | Yield 'a 'r "('a, 'r) iterator"

text \<open>The items an iterator yields before it ends.\<close>

primrec yielded :: "('a, 'r) iterator \<Rightarrow> 'a list" where
  "yielded (StopIteration r) = []"
| "yielded (Raise e r) = []"
| "yielded (Yield a r rest) = a # yielded rest"

record 'r response_obj =
  headers_r :: "'r \<Rightarrow> string \<rightharpoonup> string"
  close_r :: "'r \<Rightarrow> error option \<times> 'r"
  closed_r :: "'r \<Rightarrow> error + bool"
  raw_read_r :: "int option \<Rightarrow> bool \<Rightarrow> 'r \<Rightarrow> (error + string) \<times> 'r"
  iter_lines_r :: "(string \<times> string) list \<Rightarrow> 'r \<Rightarrow> (string, 'r) iterator"
  iter_content_r :: "int \<Rightarrow> 'r \<Rightarrow> (string, 'r) iterator"

record 'r FileDownload =
  response :: 'r

subsection \<open>The builtin \<open>int\<close> on a string\<close>

definition is_space :: "char \<Rightarrow> bool" where
  "is_space c = (c \<in> set [CHR 0x09, CHR 0x0A, CHR 0x0B, CHR 0x0C, CHR 0x0D, CHR 0x20])"

definition digit_of :: "char \<Rightarrow> nat option" where
  "digit_of c =
     (let v = (of_char c :: nat) in if 48 \<le> v \<and> v \<le> 57 then Some (v - 48) else None)"

fun digits_value :: "nat \<Rightarrow> string \<Rightarrow> nat option" where
  "digits_value acc [] = Some acc"
| "digits_value acc (c # cs) =
     (case digit_of c of None \<Rightarrow> None | Some v \<Rightarrow> digits_value (10 * acc + v) cs)"

definition strip :: "string \<Rightarrow> string" where
  "strip s = rev (dropWhile is_space (rev (dropWhile is_space s)))"

definition py_int :: "string \<Rightarrow> int option" where
  "py_int s =
     (case strip s of
        [] \<Rightarrow> None
      | c # cs \<Rightarrow>
          if c = CHR ''-'' then
            (if cs = [] then None else map_option (\<lambda>v. - int v) (digits_value 0 cs))
          else if c = CHR ''+'' then
            (if cs = [] then None else map_option int (digits_value 0 cs))
          else map_option int (digits_value 0 (c # cs)))"

subsection \<open>The methods\<close>

text \<open>\<open>__len__\<close>: the dictionary lookup raises \<open>KeyError\<close>, \<open>int\<close> raises \<open>ValueError\<close>.\<close>

definition len_FileDownload :: "'r response_obj \<Rightarrow> 'r FileDownload \<Rightarrow> error + int" where
  "len_FileDownload api d =
     (case headers_r api (response d) ''content-length'' of
        None \<Rightarrow> Inl (KeyError ''content-length'')
      | Some v \<Rightarrow>
          (case py_int v of
             None \<Rightarrow> Inl (ValueError v)
           | Some i \<Rightarrow> Inr i))"

definition close :: "'r response_obj \<Rightarrow> 'r FileDownload \<Rightarrow> error option \<times> 'r FileDownload" where
  "close api d =
     (case close_r api (response d) of (e, r') \<Rightarrow> (e, d\<lparr>response := r'\<rparr>))"

text \<open>The method \<open>closed\<close>.\<close>

definition closed' :: "'r response_obj \<Rightarrow> 'r FileDownload \<Rightarrow> error + bool" where
  "closed' api d = closed_r api (response d)"

definition read ::
  "'r response_obj \<Rightarrow> 'r FileDownload \<Rightarrow> int option \<Rightarrow> bool \<Rightarrow> (error + string) \<times> 'r FileDownload" where
  "read api d amt decode_content =
     (case raw_read_r api amt decode_content (response d) of (res, r') \<Rightarrow> (res, d\<lparr>response := r'\<rparr>))"

definition iter_FileDownload ::
  "'r response_obj \<Rightarrow> 'r FileDownload \<Rightarrow> (string \<times> string) list \<Rightarrow> (string, 'r) iterator" where
  "iter_FileDownload api d kwargs = iter_lines_r api kwargs (response d)"

definition iter_content :: "'r response_obj \<Rightarrow> 'r FileDownload \<Rightarrow> int \<Rightarrow> (string, 'r) iterator" where
  "iter_content api d chunk_size = iter_content_r api chunk_size (response d)"

text \<open>
  The body of \<open>write_to\<close>: the \<open>for\<close> loop over the iterator, writing every chunk to the
  sink. The sink's \<open>write\<close> is a parameter on a sink state \<open>'k\<close>; it may raise. The result
  is the exception that ended the loop, if any, and the states of response and sink.
\<close>

fun drain ::
  "('k \<Rightarrow> string \<Rightarrow> error option \<times> 'k) \<Rightarrow> (string, 'r) iterator \<Rightarrow> 'k \<Rightarrow> error option \<times> 'r \<times> 'k" where
  "drain w (StopIteration r') k = (None, r', k)"
| "drain w (Raise e r') k = (Some e, r', k)"
| "drain w (Yield c r' rest) k =
     (case w k c of
        (Some e, k') \<Rightarrow> (Some e, r', k')
      | (None, k') \<Rightarrow> drain w rest k')"

text \<open>
  \<open>with closing(self)\<close>: \<open>close\<close> is called when the block is left, whether or not it
  raised; an exception of \<open>close\<close> itself is the one that propagates.
\<close>

definition write_to ::
  "'r response_obj \<Rightarrow> ('k \<Rightarrow> string \<Rightarrow> error option \<times> 'k) \<Rightarrow> 'r FileDownload \<Rightarrow> 'k
     \<Rightarrow> (error + unit) \<times> 'r FileDownload \<times> 'k" where
  "write_to api w d k =
     (case drain w (iter_content api d (16 * 1024)) k of
        (body_exc, r', k') \<Rightarrow>
          (case close api (d\<lparr>response := r'\<rparr>) of
             (close_exc, d') \<Rightarrow>
               ((case close_exc of
                   Some e \<Rightarrow> Inl e
                 | None \<Rightarrow> (case body_exc of Some e \<Rightarrow> Inl e | None \<Rightarrow> Inr ())), d', k')))"

section \<open>Notions used in the statements\<close>

text \<open>A response with a 2xx status.\<close>

definition success :: "response \<Rightarrow> bool" where
  "success r = (200 \<le> status_code r \<and> status_code r < 300)"

text \<open>
  An exchange of a chunked upload whose per-chunk checksum header equals the digest of
  the body sent, and one whose header is there and differs.
\<close>

definition matched :: "(string \<Rightarrow> string) \<Rightarrow> exchange \<Rightarrow> bool" where
  "matched H e =
     (resp_headers (snd e) ''x-egnyte-chunk-sha512-checksum'' = Some (H (data (fst e))))"

definition mismatched :: "(string \<Rightarrow> string) \<Rightarrow> exchange \<Rightarrow> bool" where
  "mismatched H e =
     (case resp_headers (snd e) ''x-egnyte-chunk-sha512-checksum'' of
        None \<Rightarrow> False
      | Some v \<Rightarrow> v \<noteq> H (data (fst e)))"

text \<open>The chunk number a request carries.\<close>

definition chunk_num :: "exchange \<Rightarrow> hval option" where
  "chunk_num e = req_headers (fst e) ''x-egnyte-chunk-num''"

text \<open>The last-chunk marker a request carries.\<close>

definition last_marker :: "exchange \<Rightarrow> hval option" where
  "last_marker e = req_headers (fst e) ''x-egnyte-last-chunk''"

text \<open>What one run of the retry loop with budget \<open>retries\<close> leaves behind.\<close>

definition retry_summary ::
  "(string \<Rightarrow> string) \<Rightarrow> int \<Rightarrow> (error + int \<times> response option) \<Rightarrow> exchange list \<Rightarrow> bool" where
  "retry_summary H retries res ex =
     (ex \<noteq> [] \<and> int (length ex) \<le> retries \<and> (\<forall>e \<in> set (butlast ex). mismatched H e) \<and>
      (case res of
         Inl e \<Rightarrow> e = KeyError ''x-egnyte-chunk-sha512-checksum''
                   \<and> resp_headers (snd (last ex)) ''x-egnyte-chunk-sha512-checksum'' = None
       | Inr (ret, ro) \<Rightarrow>
           ro = Some (snd (last ex)) \<and>
           (if matched H (last ex) then ret = retries - int (length ex) + 1
            else mismatched H (last ex) \<and> ret = 0 \<and> int (length ex) = retries)))"

text \<open>The headers the loop body of \<open>_chunked_upload\<close> sets before the retry loop.\<close>

definition chunk_headers :: "int \<Rightarrow> int \<Rightarrow> FileChunk \<Rightarrow> headers \<Rightarrow> headers" where
  "chunk_headers chunk_count k c hs =
     (let hs1 = hs(''x-egnyte-chunk-num'' \<mapsto> S (fmt_d k), ''content-length'' \<mapsto> I (size' c))
      in if k = chunk_count then hs1(''x-egnyte-last-chunk'' \<mapsto> S ''true'') else hs1)"

text \<open>
  The rest of the loop body after the retry loop: the exception raised, or the headers
  the next chunk starts from.
\<close>

definition after_retries ::
  "int \<Rightarrow> FileChunk \<Rightarrow> headers \<Rightarrow> (error + int \<times> response option) \<Rightarrow> error + headers" where
  "after_retries k c hs2 pr =
     (case pr of
        Inl e \<Rightarrow> Inl e
      | Inr (retries', ro) \<Rightarrow>
          if retries' = 0 then
            Inl (ChecksumError ''Failed to upload file chunk''
                   [(''chunk_number'', k), (''start_position'', position c)])
          else
            (case ro of
               None \<Rightarrow> Inl (UnboundLocalError ''r'')
             | Some r \<Rightarrow>
                 (case check_response r of
                    Inl e \<Rightarrow> Inl e
                  | Inr _ \<Rightarrow>
                      if k = 1 then
                        (case resp_headers r ''x-egnyte-upload-id'' of
                           None \<Rightarrow> Inl (KeyError ''x-egnyte-upload-id'')
                         | Some uid \<Rightarrow> Inr (hs2(''x-egnyte-upload-id'' \<mapsto> S uid)))
                      else Inr hs2)))"

section \<open>Concrete collaborators for the examples\<close>

text \<open>A small digest that stands for SHA-512 where an example needs a concrete one.\<close>

definition demo_digest :: "string \<Rightarrow> string" where
  "demo_digest bs = fmt_d (int (sum_list (map of_char bs)))"

definition demo_get_url :: "string \<Rightarrow> (string \<times> string) list \<Rightarrow> string" where
  "demo_get_url template kwargs = template @ concat (map snd kwargs)"

text \<open>
  A server that answers from a script: one reply function per request, in order; when the
  script is used up it answers 500 without headers.
\<close>

type_synonym script = "(request \<Rightarrow> response) list"

definition scripted_POST :: "request \<Rightarrow> script \<Rightarrow> response \<times> script" where
  "scripted_POST rq sc =
     (case sc of
        [] \<Rightarrow> (\<lparr>status_code = 500, resp_headers = Map.empty\<rparr>, [])
      | g # gs \<Rightarrow> (g rq, gs))"

definition scripted_client :: "script client" where
  "scripted_client = \<lparr>get_url = demo_get_url, POST = scripted_POST\<rparr>"

text \<open>A file handle with the chunk size set to four bytes, as a test would override it.\<close>

definition tiny_File :: File where
  "tiny_File = \<lparr>path = ''/Shared/b.bin'', upload_chunk_size = 4, upload_chunk_retries = 3\<rparr>"

text \<open>A source of 250 MiB.\<close>

definition source_250MiB :: fileobj where
  "source_250MiB = BytesIO (replicate (250 * (1024 * 1024)) (CHR ''a''))"

text \<open>
  Replies: the right digest, a wrong digest, the right digest with status 500, the right
  digest without an upload id, and a wrong digest with status 500.
\<close>

definition reply :: "int \<Rightarrow> string \<Rightarrow> string \<Rightarrow> response" where
  "reply st sha uid =
     \<lparr>status_code = st,
      resp_headers = [''X-Sha512-Checksum'' \<mapsto> sha, ''x-egnyte-chunk-sha512-checksum'' \<mapsto> sha,
                      ''x-egnyte-upload-id'' \<mapsto> uid]\<rparr>"

definition good_reply :: "string \<Rightarrow> request \<Rightarrow> response" where
  "good_reply uid rq = reply 200 (demo_digest (data rq)) uid"

definition corrupt_reply :: "string \<Rightarrow> request \<Rightarrow> response" where
  "corrupt_reply uid rq = reply 200 (CHR ''x'' # demo_digest (data rq)) uid"

definition failed_reply :: "string \<Rightarrow> request \<Rightarrow> response" where
  "failed_reply uid rq = reply 500 (demo_digest (data rq)) uid"

definition no_id_reply :: "request \<Rightarrow> response" where
  "no_id_reply rq =
     \<lparr>status_code = 200,
      resp_headers = [''x-egnyte-chunk-sha512-checksum'' \<mapsto> demo_digest (data rq)]\<rparr>"

definition corrupt_failed_reply :: "string \<Rightarrow> request \<Rightarrow> response" where
  "corrupt_failed_reply uid rq = reply 500 (CHR ''x'' # demo_digest (data rq)) uid"

text \<open>
  A response object for downloads: its headers, the blocks its body still holds, whether
  the connection breaks once these blocks are delivered, and whether it was closed.
  Reading a closed one yields no bytes and no error.
\<close>

record stream =
  s_headers :: "(string \<times> string) list"
  s_body :: "string list"
  s_fault :: bool
  s_closed :: bool

fun blocks_iter :: "stream \<Rightarrow> string list \<Rightarrow> (string, stream) iterator" where
  "blocks_iter s [] =
     (if s_fault s then Raise (IOError ''connection broken'') (s\<lparr>s_body := []\<rparr>)
      else StopIteration (s\<lparr>s_body := []\<rparr>))"
| "blocks_iter s (b # bs) = Yield b (s\<lparr>s_body := bs\<rparr>) (blocks_iter s bs)"

definition stream_api :: "stream response_obj" where
  "stream_api =
     \<lparr>headers_r = (\<lambda>s. map_of (s_headers s)),
      close_r = (\<lambda>s. (None, s\<lparr>s_closed := True\<rparr>)),
      closed_r = (\<lambda>s. Inr (s_closed s)),
      raw_read_r = (\<lambda>amt decode_content s.
         if s_closed s then (Inr [], s) else (Inr (concat (s_body s)), s\<lparr>s_body := []\<rparr>)),
      iter_lines_r = (\<lambda>kwargs s. if s_closed s then StopIteration s else blocks_iter s (s_body s)),
      iter_content_r = (\<lambda>chunk_size s. if s_closed s then StopIteration s else blocks_iter s (s_body s))\<rparr>"

text \<open>
  The same object as the \<open>Response\<close> of the \<open>requests\<close> library has it: that class has
  \<open>close\<close>, \<open>headers\<close>, \<open>raw\<close>, \<open>iter_lines\<close> and \<open>iter_content\<close>, and no attribute
  \<open>closed\<close>, so the call \<open>response.closed()\<close> raises \<open>AttributeError\<close>.
\<close>

definition requests_api :: "stream response_obj" where
  "requests_api = stream_api\<lparr>closed_r := (\<lambda>s. Inl (AttributeError ''closed''))\<rparr>"

text \<open>A sink that keeps what is written to it and raises once it holds \<open>cap\<close> bytes.\<close>

definition bounded_write :: "nat \<Rightarrow> string \<Rightarrow> string \<Rightarrow> error option \<times> string" where
  "bounded_write cap k b =
     (if cap < length k + length b then (Some (IOError ''sink full''), k) else (None, k @ b))"

section \<open>Decimal numerals\<close>

lemma digit_of_char_of: "m < 10 \<Longrightarrow> digit_of (char_of (48 + m)) = Some m"
  by (simp add: digit_of_def Let_def)

lemma digits_value_snoc:
  "digits_value acc (xs @ [c]) =
     (case digits_value acc xs of None \<Rightarrow> None
      | Some v \<Rightarrow> (case digit_of c of None \<Rightarrow> None | Some d \<Rightarrow> Some (10 * v + d)))"
  by (induction xs arbitrary: acc) (auto split: option.splits)

lemma digits_value_string_of_nat: "digits_value 0 (string_of_nat n) = Some n"
proof (induction n rule: string_of_nat.induct)
  case (1 n)
  show ?case
  proof (cases "n < 10")
    case True
    then show ?thesis
      by (subst string_of_nat.simps) (simp add: digit_of_char_of)
  next
    case False
    with 1 have ih: "digits_value 0 (string_of_nat (n div 10)) = Some (n div 10)" by simp
    have "n mod 10 < 10" by simp
    then have d: "digit_of (char_of (48 + n mod 10)) = Some (n mod 10)"
      by (rule digit_of_char_of)
    show ?thesis
      using False by (subst string_of_nat.simps) (simp add: digits_value_snoc ih d)
  qed
qed

lemma string_of_nat_inj: "string_of_nat a = string_of_nat b \<Longrightarrow> a = b"
  by (metis digits_value_string_of_nat option.inject)

lemma string_of_nat_not_Nil: "string_of_nat n \<noteq> []"
  by (subst string_of_nat.simps) simp

lemma string_of_nat_digits: "c \<in> set (string_of_nat n) \<Longrightarrow> digit_of c \<noteq> None"
proof (induction n rule: string_of_nat.induct)
  case (1 n)
  show ?case
  proof (cases "n < 10")
    case True
    with 1(2) show ?thesis
      by (subst (asm) string_of_nat.simps) (simp add: digit_of_char_of)
  next
    case False
    have "n mod 10 < 10" by simp
    then have d: "digit_of (char_of (48 + n mod 10)) = Some (n mod 10)"
      by (rule digit_of_char_of)
    from 1(2) False have "c \<in> set (string_of_nat (n div 10)) \<or> c = char_of (48 + n mod 10)"
      by (subst (asm) string_of_nat.simps) auto
    with 1(1) False d show ?thesis by auto
  qed
qed

lemma digit_not_space: "digit_of c \<noteq> None \<Longrightarrow> \<not> is_space c"
  by (auto simp: digit_of_def is_space_def Let_def split: if_splits)

lemma strip_string_of_nat: "strip (string_of_nat n) = string_of_nat n"
proof -
  obtain c cs where hd: "string_of_nat n = c # cs"
    using string_of_nat_not_Nil by (cases "string_of_nat n") auto
  obtain d ds where tl: "rev (string_of_nat n) = d # ds"
    using string_of_nat_not_Nil by (cases "rev (string_of_nat n)") auto
  have "c \<in> set (string_of_nat n)" using hd by simp
  then have c: "\<not> is_space c" using string_of_nat_digits digit_not_space by blast
  have "d \<in> set (rev (string_of_nat n))" using tl by simp
  then have d: "\<not> is_space d" using string_of_nat_digits digit_not_space by auto
  have "dropWhile is_space (string_of_nat n) = string_of_nat n" using hd c by simp
  moreover have "dropWhile is_space (rev (string_of_nat n)) = rev (string_of_nat n)"
    using tl d by simp
  ultimately show ?thesis by (simp add: strip_def)
qed

lemma py_int_string_of_nat: "py_int (string_of_nat n) = Some (int n)"
proof -
  obtain c cs where hd: "string_of_nat n = c # cs"
    using string_of_nat_not_Nil by (cases "string_of_nat n") auto
  have "c \<in> set (string_of_nat n)" using hd by simp
  then have "digit_of c \<noteq> None" by (rule string_of_nat_digits)
  then have "c \<noteq> CHR ''-''" "c \<noteq> CHR ''+''"
    by (auto simp: digit_of_def Let_def)
  moreover have "digits_value 0 (c # cs) = Some n"
    using digits_value_string_of_nat[of n] hd by simp
  moreover have "strip (string_of_nat n) = c # cs"
    using strip_string_of_nat[of n] hd by simp
  ultimately show ?thesis
    by (simp add: py_int_def del: digits_value.simps)
qed

lemma string_of_nat_hd: "string_of_nat n \<noteq> CHR ''-'' # s"
proof
  assume a: "string_of_nat n = CHR ''-'' # s"
  then have "CHR ''-'' \<in> set (string_of_nat n)" by simp
  then have "digit_of CHR ''-'' \<noteq> None" by (rule string_of_nat_digits)
  then show False by (simp add: digit_of_def Let_def)
qed

lemma fmt_d_inj: "fmt_d a = fmt_d b \<Longrightarrow> a = b"
  using string_of_nat_hd string_of_nat_hd[symmetric]
  by (auto simp: fmt_d_def dest!: string_of_nat_inj split: if_splits)

section \<open>Splitting into chunks\<close>

lemma split_from_length:
  "0 < cs \<Longrightarrow> int (length (split_from f p fs cs)) = (if fs \<le> p then 0 else - ((p - fs) div cs))"
proof (induction f p fs cs rule: split_from.induct)
  case (1 f p fs cs)
  show ?case
  proof (cases "fs \<le> p")
    case True
    then show ?thesis by (subst split_from.simps) simp
  next
    case False
    with "1.prems" have go: "\<not> (cs \<le> 0 \<or> fs \<le> p)" by simp
    show ?thesis
    proof (cases "fs - p \<le> cs")
      case True
      then have m: "min cs (fs - p) = fs - p" by simp
      have "int (length (split_from f (p + (fs - p)) fs cs)) = 0"
        using "1.IH"[OF go "1.prems"] by (simp add: m)
      then have len: "int (length (split_from f p fs cs)) = 1"
        using go by (subst split_from.simps) (simp add: m)
      have "(p - fs + cs) div cs = 0"
        using True False by (intro div_pos_pos_trivial) simp_all
      moreover have "(p - fs + cs) div cs = (p - fs) div cs + 1"
        using "1.prems" by simp
      ultimately have "- ((p - fs) div cs) = 1" by simp
      with len False show ?thesis by simp
    next
      case big: False
      then have m: "min cs (fs - p) = cs" by simp
      have "int (length (split_from f (p + cs) fs cs)) = - ((p + cs - fs) div cs)"
        using "1.IH"[OF go "1.prems"] big by (simp add: m)
      then have len: "int (length (split_from f p fs cs)) = 1 - ((p + cs - fs) div cs)"
        using go by (subst split_from.simps) (simp add: m)
      have "(p + cs - fs) div cs = (p - fs + cs) div cs" by (simp add: algebra_simps)
      also have "\<dots> = (p - fs) div cs + 1"
        using "1.prems" by simp
      finally show ?thesis using len False by simp
    qed
  qed
qed

lemma split_from_nth:
  "0 < cs \<Longrightarrow> i < length (split_from f p fs cs) \<Longrightarrow>
     split_from f p fs cs ! i =
       \<lparr>fp = f, position = p + int i * cs, size' = min cs (fs - (p + int i * cs))\<rparr>"
proof (induction f p fs cs arbitrary: i rule: split_from.induct)
  case (1 f p fs cs)
  have go: "\<not> (cs \<le> 0 \<or> fs \<le> p)"
  proof
    assume "cs \<le> 0 \<or> fs \<le> p"
    then have "split_from f p fs cs = []" by (subst split_from.simps) simp
    with "1.prems"(2) show False by simp
  qed
  have unf: "split_from f p fs cs =
      \<lparr>fp = f, position = p, size' = min cs (fs - p)\<rparr>
        # split_from f (p + min cs (fs - p)) fs cs"
    using go by (subst split_from.simps) simp
  show ?case
  proof (cases i)
    case 0
    then show ?thesis by (subst unf) simp
  next
    case (Suc j)
    with "1.prems"(2) have j: "j < length (split_from f (p + min cs (fs - p)) fs cs)"
      by (subst (asm) unf) simp
    have big: "\<not> fs - p \<le> cs"
    proof
      assume "fs - p \<le> cs"
      then have "p + min cs (fs - p) = fs" by simp
      then have "split_from f (p + min cs (fs - p)) fs cs = []"
        by (subst split_from.simps) simp
      with j show False by simp
    qed
    then have m: "min cs (fs - p) = cs" by simp
    from "1.IH"[OF go "1.prems"(1) j]
    have "split_from f (p + cs) fs cs ! j =
       \<lparr>fp = f, position = p + cs + int j * cs, size' = min cs (fs - (p + cs + int j * cs))\<rparr>"
      by (simp add: m)
    then show ?thesis
      by (subst unf) (simp add: Suc m algebra_simps)
  qed
qed

lemma split_file_into_chunks_length:
  assumes "0 < cs"
  shows "length (split_file_into_chunks f fs cs) = nat \<lceil>real_of_int fs / real_of_int cs\<rceil>"
proof -
  have "int (length (split_from f 0 fs cs)) = (if fs \<le> 0 then 0 else - ((- fs) div cs))"
    using split_from_length[OF assms, of f 0 fs] by simp
  moreover have "fs \<le> 0 \<Longrightarrow> - ((- fs) div cs) \<le> 0"
    using assms by (simp add: pos_imp_zdiv_nonneg_iff)
  ultimately have "length (split_from f 0 fs cs) = nat (- ((- fs) div cs))"
    by (auto split: if_splits)
  then show ?thesis
    by (simp add: split_file_into_chunks_def ceiling_divide_eq_div)
qed

lemma split_file_into_chunks_nth:
  assumes "0 < cs" and "i < length (split_file_into_chunks f fs cs)"
  shows "split_file_into_chunks f fs cs ! i =
           \<lparr>fp = f, position = int i * cs, size' = min cs (fs - int i * cs)\<rparr>"
  using split_from_nth[OF assms(1), of i f 0 fs] assms(2)
  by (simp add: split_file_into_chunks_def)

section \<open>The retry loop\<close>

lemma matched_not_mismatched: "matched H e \<Longrightarrow> \<not> mismatched H e"
  by (simp add: matched_def mismatched_def)

lemma pwr_nonpos:
  "retries \<le> 0 \<Longrightarrow> post_with_retries cl H u c hs retries r0 n = (Inr (retries, r0), [], n)"
  by (subst post_with_retries.simps) simp

lemma pwr_pos:
  assumes "0 < retries"
  shows "post_with_retries cl H u c hs retries r0 n =
     (case resp_headers (fst (POST cl (chunk_request u c hs) n)) ''x-egnyte-chunk-sha512-checksum'' of
        None \<Rightarrow> (Inl (KeyError ''x-egnyte-chunk-sha512-checksum''),
                 [(chunk_request u c hs, fst (POST cl (chunk_request u c hs) n))],
                 snd (POST cl (chunk_request u c hs) n))
      | Some server_sha \<Rightarrow>
          if server_sha = H (chunk_data c)
          then (Inr (retries, Some (fst (POST cl (chunk_request u c hs) n))),
                [(chunk_request u c hs, fst (POST cl (chunk_request u c hs) n))],
                snd (POST cl (chunk_request u c hs) n))
          else (case post_with_retries cl H u c hs (retries - 1)
                       (Some (fst (POST cl (chunk_request u c hs) n)))
                       (snd (POST cl (chunk_request u c hs) n)) of
                  (res, ex, n'') \<Rightarrow>
                    (res, (chunk_request u c hs, fst (POST cl (chunk_request u c hs) n)) # ex, n'')))"
  using assms
  by (subst post_with_retries.simps) (simp add: Let_def hexdigest_def split: option.splits)

lemma pwr_summary:
  "post_with_retries cl H u c hs (int (Suc m)) r0 n = (res, ex, n')
     \<Longrightarrow> retry_summary H (int (Suc m)) res ex \<and> (\<forall>e \<in> set ex. fst e = chunk_request u c hs)"
proof (induction m arbitrary: r0 n res ex n')
  case 0
  from 0 show ?case
    by (auto simp: pwr_pos pwr_nonpos retry_summary_def matched_def mismatched_def
        chunk_request_def split: option.splits if_splits)
next
  case (Suc m)
  define rq where "rq = chunk_request u c hs"
  define r where "r = fst (POST cl rq n)"
  define n1 where "n1 = snd (POST cl rq n)"
  have d: "data rq = chunk_data c" by (simp add: rq_def chunk_request_def)
  show ?case
  proof (cases "resp_headers r ''x-egnyte-chunk-sha512-checksum''")
    case None
    with Suc.prems show ?thesis
      by (auto simp: pwr_pos retry_summary_def r_def rq_def)
  next
    case (Some v)
    show ?thesis
    proof (cases "v = H (chunk_data c)")
      case True
      with Some Suc.prems show ?thesis
        by (auto simp: pwr_pos retry_summary_def matched_def d r_def rq_def chunk_request_def)
    next
      case False
      obtain res2 ex2 n2 where rec:
        "post_with_retries cl H u c hs (int (Suc m)) (Some r) n1 = (res2, ex2, n2)"
        by (cases "post_with_retries cl H u c hs (int (Suc m)) (Some r) n1") auto
      have eq: "int (Suc (Suc m)) - 1 = int (Suc m)" by simp
      have "post_with_retries cl H u c hs (int (Suc (Suc m))) r0 n = (res2, (rq, r) # ex2, n2)"
        using Some False rec
        by (simp add: pwr_pos eq r_def[symmetric] rq_def[symmetric] n1_def[symmetric]
                 del: of_nat_Suc)
      with Suc.prems have res: "res = res2" and ex: "ex = (rq, r) # ex2" by simp_all
      from Suc.IH[OF rec] have ih: "retry_summary H (int (Suc m)) res2 ex2"
        and rqs: "\<forall>e \<in> set ex2. fst e = chunk_request u c hs" by simp_all
      have mm: "mismatched H (rq, r)"
        using Some False by (simp add: mismatched_def d)
      have ne: "ex2 \<noteq> []" using ih by (simp add: retry_summary_def)
      have "retry_summary H (int (Suc (Suc m))) res ex"
        using ih mm ne unfolding retry_summary_def res ex
        by (auto split: sum.splits prod.splits if_splits)
      with rqs show ?thesis by (simp add: ex rq_def)
    qed
  qed
qed

section \<open>The loop over the chunks\<close>

lemma upload_chunks_Cons:
  "upload_chunks cl H f u cnt k (c # rest) hs n =
     (case post_with_retries cl H u c (chunk_headers cnt k c hs) (max (upload_chunk_retries f) 1) None n of
        (pr, blk, n1) \<Rightarrow>
          (case after_retries k c (chunk_headers cnt k c hs) pr of
             Inl e \<Rightarrow> (Inl e, blk, n1)
           | Inr hs' \<Rightarrow>
               (case upload_chunks cl H f u cnt (k + 1) rest hs' n1 of
                  (res, ex', n2) \<Rightarrow> (res, blk @ ex', n2))))"
proof -
  define hs2 where "hs2 = chunk_headers cnt k c hs"
  have hs2_eq: "(if k = cnt
       then (hs(''x-egnyte-chunk-num'' \<mapsto> S (fmt_d k), ''content-length'' \<mapsto> I (size' c)))
              (''x-egnyte-last-chunk'' \<mapsto> S ''true'')
       else hs(''x-egnyte-chunk-num'' \<mapsto> S (fmt_d k), ''content-length'' \<mapsto> I (size' c))) = hs2"
    by (simp add: hs2_def chunk_headers_def Let_def)
  obtain pr blk n1 where p:
    "post_with_retries cl H u c hs2 (max (upload_chunk_retries f) 1) None n = (pr, blk, n1)"
    by (cases "post_with_retries cl H u c hs2 (max (upload_chunk_retries f) 1) None n") auto
  show ?thesis
    unfolding upload_chunks.simps Let_def hs2_eq hs2_def[symmetric] p
    by (simp add: after_retries_def split: prod.splits sum.splits option.splits)
qed

lemma block_facts:
  assumes "post_with_retries cl H u c hs2 (max R 1) None n = (pr, blk, n1)"
  shows "retry_summary H (max R 1) pr blk" and "\<forall>e \<in> set blk. fst e = chunk_request u c hs2"
proof -
  define m where "m = nat (max R 1 - 1)"
  have eq: "int (Suc m) = max R 1" by (auto simp: m_def max_def)
  from assms have "post_with_retries cl H u c hs2 (int (Suc m)) None n = (pr, blk, n1)"
    by (simp only: eq)
  from pwr_summary[OF this]
  have "retry_summary H (max R 1) pr blk \<and> (\<forall>e \<in> set blk. fst e = chunk_request u c hs2)"
    unfolding eq .
  then show "retry_summary H (max R 1) pr blk" and "\<forall>e \<in> set blk. fst e = chunk_request u c hs2"
    by blast+
qed

lemma after_retries_Inr:
  assumes "retry_summary H R' pr blk" and "after_retries k c hs2 pr = Inr hs'"
  shows "matched H (last blk)" and "success (snd (last blk))"
    and "k \<noteq> 1 \<Longrightarrow> hs' = hs2"
    and "k = 1 \<Longrightarrow> \<exists>v. resp_headers (snd (last blk)) ''x-egnyte-upload-id'' = Some v
                        \<and> hs' = hs2(''x-egnyte-upload-id'' \<mapsto> S v)"
  using assms
  by (auto simp: retry_summary_def after_retries_def check_response_def success_def
      split: sum.splits prod.splits if_splits option.splits)

lemma after_retries_TransferFailed:
  assumes "retry_summary H R' pr blk" and "after_retries k c hs2 pr = Inl TransferFailed"
  shows "matched H (last blk)" and "\<not> success (snd (last blk))"
  using assms
  by (auto simp: retry_summary_def after_retries_def check_response_def success_def
      split: sum.splits prod.splits if_splits option.splits)

lemma after_retries_mismatched:
  assumes "retry_summary H R' pr blk" and "mismatched H (last blk)"
  shows "after_retries k c hs2 pr =
           Inl (ChecksumError ''Failed to upload file chunk''
                  [(''chunk_number'', k), (''start_position'', position c)])"
    and "int (length blk) = R'"
  using assms
  by (auto simp: retry_summary_def after_retries_def matched_def mismatched_def
      split: sum.splits prod.splits if_splits option.splits)

lemma retry_summary_nonempty: "retry_summary H R' pr blk \<Longrightarrow> blk \<noteq> []"
  by (simp add: retry_summary_def)

lemma retry_summary_length: "retry_summary H R' pr blk \<Longrightarrow> int (length blk) \<le> R'"
  by (simp add: retry_summary_def)

lemma retry_summary_single:
  assumes "retry_summary H R' pr blk" and "\<forall>e \<in> set blk. \<not> mismatched H e"
  shows "length blk = 1"
proof -
  from assms(1) have ne: "blk \<noteq> []" and bl: "\<forall>e \<in> set (butlast blk). mismatched H e"
    by (simp_all add: retry_summary_def)
  have "set (butlast blk) \<subseteq> set blk" by (auto dest: in_set_butlastD)
  with bl assms(2) have "butlast blk = []" by (cases "butlast blk") auto
  with ne show ?thesis by (cases blk) (auto split: if_splits)
qed

text \<open>Shape of the headers the loop sets for a chunk.\<close>

lemma chunk_headers_num [simp]:
  "chunk_headers cnt k c hs ''x-egnyte-chunk-num'' = Some (S (fmt_d k))"
  by (simp add: chunk_headers_def Let_def)

lemma chunk_headers_len [simp]:
  "chunk_headers cnt k c hs ''content-length'' = Some (I (size' c))"
  by (simp add: chunk_headers_def Let_def)

lemma chunk_headers_uid [simp]:
  "chunk_headers cnt k c hs ''x-egnyte-upload-id'' = hs ''x-egnyte-upload-id''"
  by (simp add: chunk_headers_def Let_def)

lemma chunk_headers_last [simp]:
  "chunk_headers cnt k c hs ''x-egnyte-last-chunk'' =
     (if k = cnt then Some (S ''true'') else hs ''x-egnyte-last-chunk'')"
  by (simp add: chunk_headers_def Let_def)

lemma upload_chunks_requests:
  "upload_chunks cl H f u cnt k cs hs n = (res, ex, n') \<Longrightarrow>
     \<forall>e \<in> set ex. \<exists>i < length cs.
        url (fst e) = u \<and> data (fst e) = chunk_data (cs ! i)
      \<and> req_headers (fst e) ''x-egnyte-chunk-num'' = Some (S (fmt_d (k + int i)))
      \<and> req_headers (fst e) ''content-length'' = Some (I (size' (cs ! i)))"
proof (induction cs arbitrary: k hs n res ex n')
  case Nil
  then show ?case by simp
next
  case (Cons c rest)
  define hs2 where "hs2 = chunk_headers cnt k c hs"
  obtain pr blk n1 where p:
    "post_with_retries cl H u c hs2 (max (upload_chunk_retries f) 1) None n = (pr, blk, n1)"
    by (cases "post_with_retries cl H u c hs2 (max (upload_chunk_retries f) 1) None n") auto
  from block_facts[OF p] have rq: "\<forall>e \<in> set blk. fst e = chunk_request u c hs2" by simp
  have blk: "\<forall>e \<in> set blk. \<exists>i < length (c # rest).
        url (fst e) = u \<and> data (fst e) = chunk_data ((c # rest) ! i)
      \<and> req_headers (fst e) ''x-egnyte-chunk-num'' = Some (S (fmt_d (k + int i)))
      \<and> req_headers (fst e) ''content-length'' = Some (I (size' ((c # rest) ! i)))"
  proof
    fix e assume "e \<in> set blk"
    with rq have "fst e = chunk_request u c hs2" by simp
    then have "url (fst e) = u \<and> data (fst e) = chunk_data ((c # rest) ! 0)
      \<and> req_headers (fst e) ''x-egnyte-chunk-num'' = Some (S (fmt_d (k + int 0)))
      \<and> req_headers (fst e) ''content-length'' = Some (I (size' ((c # rest) ! 0)))"
      by (simp add: chunk_request_def hs2_def)
    then show "\<exists>i < length (c # rest).
        url (fst e) = u \<and> data (fst e) = chunk_data ((c # rest) ! i)
      \<and> req_headers (fst e) ''x-egnyte-chunk-num'' = Some (S (fmt_d (k + int i)))
      \<and> req_headers (fst e) ''content-length'' = Some (I (size' ((c # rest) ! i)))"
      by (intro exI[of _ 0]) simp
  qed
  show ?case
  proof (cases "after_retries k c hs2 pr")
    case (Inl e)
    with Cons.prems p have "ex = blk"
      by (simp add: upload_chunks_Cons hs2_def[symmetric] del: upload_chunks.simps)
    with blk show ?thesis by simp
  next
    case (Inr hs')
    obtain res2 ex2 n2 where rec: "upload_chunks cl H f u cnt (k + 1) rest hs' n1 = (res2, ex2, n2)"
      by (cases "upload_chunks cl H f u cnt (k + 1) rest hs' n1") auto
    with Cons.prems p Inr have ex: "ex = blk @ ex2"
      by (simp add: upload_chunks_Cons hs2_def[symmetric] del: upload_chunks.simps)
    have "\<forall>e \<in> set ex2. \<exists>i < length (c # rest).
        url (fst e) = u \<and> data (fst e) = chunk_data ((c # rest) ! i)
      \<and> req_headers (fst e) ''x-egnyte-chunk-num'' = Some (S (fmt_d (k + int i)))
      \<and> req_headers (fst e) ''content-length'' = Some (I (size' ((c # rest) ! i)))"
    proof
      fix e assume "e \<in> set ex2"
      with Cons.IH[OF rec] obtain i where "i < length rest"
        "url (fst e) = u" "data (fst e) = chunk_data (rest ! i)"
        "req_headers (fst e) ''x-egnyte-chunk-num'' = Some (S (fmt_d (k + 1 + int i)))"
        "req_headers (fst e) ''content-length'' = Some (I (size' (rest ! i)))"
        by blast
      then show "\<exists>i < length (c # rest).
        url (fst e) = u \<and> data (fst e) = chunk_data ((c # rest) ! i)
      \<and> req_headers (fst e) ''x-egnyte-chunk-num'' = Some (S (fmt_d (k + int i)))
      \<and> req_headers (fst e) ''content-length'' = Some (I (size' ((c # rest) ! i)))"
        by (intro exI[of _ "Suc i"]) (simp add: algebra_simps)
    qed
    with blk ex show ?thesis by auto
  qed
qed

lemma block_chunk_num:
  assumes "\<forall>e \<in> set blk. fst e = chunk_request u c (chunk_headers cnt k c hs)" and "e \<in> set blk"
  shows "chunk_num e = Some (S (fmt_d k))"
  using assms by (simp add: chunk_num_def chunk_request_def)

lemma upload_chunks_exhausted:
  assumes "upload_chunks cl H f u cnt k0 cs hs n = (res, ex, n')"
    and "filter (\<lambda>e. chunk_num e = Some (S (fmt_d k))) ex \<noteq> []"
    and "\<forall>e \<in> set ex. chunk_num e = Some (S (fmt_d k)) \<longrightarrow> mismatched H e"
  shows "k0 \<le> k \<and> k < k0 + int (length cs)
       \<and> res = Inl (ChecksumError ''Failed to upload file chunk''
                      [(''chunk_number'', k), (''start_position'', position (cs ! nat (k - k0)))])
       \<and> int (length (filter (\<lambda>e. chunk_num e = Some (S (fmt_d k))) ex)) = max (upload_chunk_retries f) 1
       \<and> (\<forall>e \<in> set ex. \<exists>j. k0 \<le> j \<and> j \<le> k \<and> chunk_num e = Some (S (fmt_d j)))"
  using assms
proof (induction cs arbitrary: k0 hs n res ex n')
  case Nil
  then show ?case by simp
next
  case (Cons c rest)
  define hs2 where "hs2 = chunk_headers cnt k0 c hs"
  define R where "R = max (upload_chunk_retries f) 1"
  define P where "P = (\<lambda>e. chunk_num e = Some (S (fmt_d k)))"
  obtain pr blk n1 where p: "post_with_retries cl H u c hs2 R None n = (pr, blk, n1)"
    by (cases "post_with_retries cl H u c hs2 R None n") auto
  from block_facts[OF p[unfolded R_def]]
  have rs: "retry_summary H R pr blk" and rq: "\<forall>e \<in> set blk. fst e = chunk_request u c hs2"
    by (simp_all add: R_def)
  have ne: "blk \<noteq> []" using rs by (rule retry_summary_nonempty)
  have num: "chunk_num e = Some (S (fmt_d k0))" if "e \<in> set blk" for e
    using block_chunk_num[OF rq[unfolded hs2_def] that] .
  have step: "upload_chunks cl H f u cnt k0 (c # rest) hs n =
     (case after_retries k0 c hs2 pr of
        Inl e \<Rightarrow> (Inl e, blk, n1)
      | Inr hs' \<Rightarrow>
          (case upload_chunks cl H f u cnt (k0 + 1) rest hs' n1 of
             (res, ex', n2) \<Rightarrow> (res, blk @ ex', n2)))"
    using p by (simp add: upload_chunks_Cons hs2_def R_def del: upload_chunks.simps)
  have sub: "set blk \<subseteq> set ex"
    using Cons.prems(1) unfolding step by (auto split: sum.splits prod.splits)
  show ?case
  proof (cases "k = k0")
    case True
    have "last blk \<in> set blk" using ne by simp
    then have mm: "mismatched H (last blk)"
      using Cons.prems(3) sub num[of "last blk"] True by blast
    have ar: "after_retries k0 c hs2 pr = Inl (ChecksumError ''Failed to upload file chunk''
                  [(''chunk_number'', k0), (''start_position'', position c)])"
      by (rule after_retries_mismatched(1)[OF rs mm])
    have len: "int (length blk) = R"
      by (rule after_retries_mismatched(2)[OF rs mm])
    from Cons.prems(1) have res: "res = Inl (ChecksumError ''Failed to upload file chunk''
                  [(''chunk_number'', k0), (''start_position'', position c)])" and ex: "ex = blk"
      unfolding step ar by simp_all
    have "filter (\<lambda>e. chunk_num e = Some (S (fmt_d k))) ex = ex"
      using num True ex by (simp add: filter_id_conv)
    with res ex len True num show ?thesis
      unfolding R_def by auto
  next
    case False
    have nP: "filter (\<lambda>e. chunk_num e = Some (S (fmt_d k))) blk = []"
      using num False by (auto simp: filter_empty_conv dest: fmt_d_inj)
    show ?thesis
    proof (cases "after_retries k0 c hs2 pr")
      case (Inl e)
      with Cons.prems(1) have "ex = blk" unfolding step by simp
      with nP Cons.prems(2) show ?thesis by simp
    next
      case (Inr hs')
      obtain res2 ex2 n2 where rec: "upload_chunks cl H f u cnt (k0 + 1) rest hs' n1 = (res2, ex2, n2)"
        by (cases "upload_chunks cl H f u cnt (k0 + 1) rest hs' n1") auto
      with Cons.prems(1) Inr have res: "res = res2" and ex: "ex = blk @ ex2"
        unfolding step by simp_all
      have f2: "filter (\<lambda>e. chunk_num e = Some (S (fmt_d k))) ex2 \<noteq> []"
        using Cons.prems(2) nP ex by simp
      have m2: "\<forall>e \<in> set ex2. chunk_num e = Some (S (fmt_d k)) \<longrightarrow> mismatched H e"
        using Cons.prems(3) ex by simp
      from Cons.IH[OF rec f2 m2]
      have ih1: "k0 + 1 \<le> k" and ih2: "k < k0 + 1 + int (length rest)"
        and ih3: "res2 = Inl (ChecksumError ''Failed to upload file chunk''
                      [(''chunk_number'', k), (''start_position'', position (rest ! nat (k - (k0 + 1))))])"
        and ih4: "int (length (filter (\<lambda>e. chunk_num e = Some (S (fmt_d k))) ex2)) = max (upload_chunk_retries f) 1"
        and ih5: "\<forall>e \<in> set ex2. \<exists>j. k0 + 1 \<le> j \<and> j \<le> k \<and> chunk_num e = Some (S (fmt_d j))"
        by simp_all
      have idx: "(c # rest) ! nat (k - k0) = rest ! nat (k - (k0 + 1))"
      proof -
        have "nat (k - k0) = Suc (nat (k - (k0 + 1)))" using ih1 by simp
        then show ?thesis by simp
      qed
      have all: "\<forall>e \<in> set ex. \<exists>j. k0 \<le> j \<and> j \<le> k \<and> chunk_num e = Some (S (fmt_d j))"
      proof
        fix e assume "e \<in> set ex"
        then consider "e \<in> set blk" | "e \<in> set ex2" using ex by auto
        then show "\<exists>j. k0 \<le> j \<and> j \<le> k \<and> chunk_num e = Some (S (fmt_d j))"
        proof cases
          case 1
          with num ih1 show ?thesis by (intro exI[of _ k0]) simp
        next
          case 2
          with ih5 obtain j where "k0 + 1 \<le> j" "j \<le> k" "chunk_num e = Some (S (fmt_d j))" by blast
          then show ?thesis by (intro exI[of _ j]) simp
        qed
      qed
      show ?thesis
        using ih1 ih2 ih3 ih4 all idx nP unfolding res ex by simp
    qed
  qed
qed

lemma chunked_upload_requests:
  assumes "e \<in> set (fst (snd (chunked_upload cl H f fobj sz n)))"
  shows "url (fst e) = get_url cl url_content_chunked_template [(''path'', path f)]
       \<and> (\<exists>i < length (split_file_into_chunks fobj sz (upload_chunk_size f)).
             chunk_num e = Some (S (fmt_d (1 + int i))))"
proof -
  define u where "u = get_url cl url_content_chunked_template [(''path'', path f)]"
  define cs where "cs = split_file_into_chunks fobj sz (upload_chunk_size f)"
  obtain res ex n' where run: "upload_chunks cl H f u (int (length cs)) 1 cs Map.empty n = (res, ex, n')"
    by (cases "upload_chunks cl H f u (int (length cs)) 1 cs Map.empty n") auto
  then have "fst (snd (chunked_upload cl H f fobj sz n)) = ex"
    by (simp add: chunked_upload_def Let_def u_def cs_def)
  with assms have "e \<in> set ex" by simp
  with upload_chunks_requests[OF run] show ?thesis
    unfolding u_def cs_def chunk_num_def by blast
qed

lemma upload_chunks_session:
  assumes "upload_chunks cl H f u cnt k cs hs n = (res, ex, n')"
    and "1 < k" and "hs ''x-egnyte-upload-id'' = Some v"
  shows "\<forall>e \<in> set ex. req_headers (fst e) ''x-egnyte-upload-id'' = Some v
                      \<and> chunk_num e \<noteq> Some (S (fmt_d 1))"
  using assms
proof (induction cs arbitrary: k hs n res ex n')
  case Nil
  then show ?case by simp
next
  case (Cons c rest)
  define hs2 where "hs2 = chunk_headers cnt k c hs"
  define R where "R = max (upload_chunk_retries f) 1"
  obtain pr blk n1 where p: "post_with_retries cl H u c hs2 R None n = (pr, blk, n1)"
    by (cases "post_with_retries cl H u c hs2 R None n") auto
  from block_facts[OF p[unfolded R_def]]
  have rs: "retry_summary H R pr blk" and rq: "\<forall>e \<in> set blk. fst e = chunk_request u c hs2"
    by (simp_all add: R_def)
  have step: "upload_chunks cl H f u cnt k (c # rest) hs n =
     (case after_retries k c hs2 pr of
        Inl e \<Rightarrow> (Inl e, blk, n1)
      | Inr hs' \<Rightarrow>
          (case upload_chunks cl H f u cnt (k + 1) rest hs' n1 of
             (res, ex', n2) \<Rightarrow> (res, blk @ ex', n2)))"
    using p by (simp add: upload_chunks_Cons hs2_def R_def del: upload_chunks.simps)
  have k1: "fmt_d k \<noteq> fmt_d 1" using Cons.prems(2) fmt_d_inj[of k 1] by auto
  have blk: "\<forall>e \<in> set blk. req_headers (fst e) ''x-egnyte-upload-id'' = Some v
                      \<and> chunk_num e \<noteq> Some (S (fmt_d 1))"
    using rq Cons.prems(3) k1 by (simp add: hs2_def chunk_request_def chunk_num_def)
  show ?case
  proof (cases "after_retries k c hs2 pr")
    case (Inl e)
    with Cons.prems(1) have "ex = blk" unfolding step by simp
    with blk show ?thesis by simp
  next
    case (Inr hs')
    obtain res2 ex2 n2 where rec: "upload_chunks cl H f u cnt (k + 1) rest hs' n1 = (res2, ex2, n2)"
      by (cases "upload_chunks cl H f u cnt (k + 1) rest hs' n1") auto
    with Cons.prems(1) Inr have ex: "ex = blk @ ex2" unfolding step by simp
    have "hs' = hs2" using after_retries_Inr(3)[OF rs Inr] Cons.prems(2) by simp
    then have "hs' ''x-egnyte-upload-id'' = Some v" using Cons.prems(3) by (simp add: hs2_def)
    from Cons.IH[OF rec _ this] Cons.prems(2) blk ex show ?thesis by auto
  qed
qed

lemma upload_chunks_TransferFailed:
  assumes "upload_chunks cl H f u cnt k cs hs n = (Inl TransferFailed, ex, n')"
  shows "ex \<noteq> [] \<and> matched H (last ex) \<and> \<not> success (snd (last ex))"
  using assms
proof (induction cs arbitrary: k hs n ex n')
  case Nil
  then show ?case by simp
next
  case (Cons c rest)
  define hs2 where "hs2 = chunk_headers cnt k c hs"
  define R where "R = max (upload_chunk_retries f) 1"
  obtain pr blk n1 where p: "post_with_retries cl H u c hs2 R None n = (pr, blk, n1)"
    by (cases "post_with_retries cl H u c hs2 R None n") auto
  from block_facts[OF p[unfolded R_def]]
  have rs: "retry_summary H R pr blk" by (simp add: R_def)
  have ne: "blk \<noteq> []" using rs by (rule retry_summary_nonempty)
  have step: "upload_chunks cl H f u cnt k (c # rest) hs n =
     (case after_retries k c hs2 pr of
        Inl e \<Rightarrow> (Inl e, blk, n1)
      | Inr hs' \<Rightarrow>
          (case upload_chunks cl H f u cnt (k + 1) rest hs' n1 of
             (res, ex', n2) \<Rightarrow> (res, blk @ ex', n2)))"
    using p by (simp add: upload_chunks_Cons hs2_def R_def del: upload_chunks.simps)
  show ?case
  proof (cases "after_retries k c hs2 pr")
    case (Inl e)
    with Cons.prems[unfolded step] have e: "e = TransferFailed" and ex: "ex = blk" by simp_all
    from after_retries_TransferFailed[OF rs Inl[unfolded e]] ne ex show ?thesis by simp
  next
    case (Inr hs')
    obtain res2 ex2 n2 where rec: "upload_chunks cl H f u cnt (k + 1) rest hs' n1 = (res2, ex2, n2)"
      by (cases "upload_chunks cl H f u cnt (k + 1) rest hs' n1") auto
    with Cons.prems[unfolded step] Inr have res: "res2 = Inl TransferFailed" and ex: "ex = blk @ ex2"
      by simp_all
    from Cons.IH[OF rec[unfolded res]] ex show ?thesis by simp
  qed
qed

lemma upload_chunks_last_mismatched:
  assumes "upload_chunks cl H f u cnt k cs hs n = (res, ex, n')"
    and "ex \<noteq> []" and "mismatched H (last ex)"
  shows "\<exists>j p. res = Inl (ChecksumError ''Failed to upload file chunk''
                          [(''chunk_number'', j), (''start_position'', p)])"
  using assms
proof (induction cs arbitrary: k hs n res ex n')
  case Nil
  then show ?case by simp
next
  case (Cons c rest)
  define hs2 where "hs2 = chunk_headers cnt k c hs"
  define R where "R = max (upload_chunk_retries f) 1"
  obtain pr blk n1 where p: "post_with_retries cl H u c hs2 R None n = (pr, blk, n1)"
    by (cases "post_with_retries cl H u c hs2 R None n") auto
  from block_facts[OF p[unfolded R_def]]
  have rs: "retry_summary H R pr blk" by (simp add: R_def)
  have ne: "blk \<noteq> []" using rs by (rule retry_summary_nonempty)
  have step: "upload_chunks cl H f u cnt k (c # rest) hs n =
     (case after_retries k c hs2 pr of
        Inl e \<Rightarrow> (Inl e, blk, n1)
      | Inr hs' \<Rightarrow>
          (case upload_chunks cl H f u cnt (k + 1) rest hs' n1 of
             (res, ex', n2) \<Rightarrow> (res, blk @ ex', n2)))"
    using p by (simp add: upload_chunks_Cons hs2_def R_def del: upload_chunks.simps)
  show ?case
  proof (cases "after_retries k c hs2 pr")
    case (Inl e)
    with Cons.prems(1)[unfolded step] have res: "res = Inl e" and ex: "ex = blk" by simp_all
    from after_retries_mismatched(1)[OF rs Cons.prems(3)[unfolded ex], of k c hs2] Inl res
    show ?thesis by auto
  next
    case (Inr hs')
    obtain res2 ex2 n2 where rec: "upload_chunks cl H f u cnt (k + 1) rest hs' n1 = (res2, ex2, n2)"
      by (cases "upload_chunks cl H f u cnt (k + 1) rest hs' n1") auto
    with Cons.prems(1)[unfolded step] Inr have res: "res = res2" and ex: "ex = blk @ ex2"
      by simp_all
    show ?thesis
    proof (cases "ex2 = []")
      case True
      with ex Cons.prems(3) have "mismatched H (last blk)" by simp
      moreover have "matched H (last blk)" using after_retries_Inr(1)[OF rs Inr] .
      ultimately show ?thesis using matched_not_mismatched by blast
    next
      case False
      with ex Cons.prems(3) have "mismatched H (last ex2)" by simp
      from Cons.IH[OF rec False this] res show ?thesis by simp
    qed
  qed
qed

lemma upload_chunks_first_try:
  assumes "upload_chunks cl H f u cnt k cs hs n = (res, ex, n')"
    and "cnt = k + int (length cs) - 1"
    and "hs ''x-egnyte-last-chunk'' = None"
    and "\<forall>e \<in> set ex. matched H e"
  shows "length ex \<le> length cs \<and> (res = Inr () \<longrightarrow> length ex = length cs)
       \<and> (\<forall>i < length ex.
             url (fst (ex ! i)) = u
           \<and> data (fst (ex ! i)) = chunk_data (cs ! i)
           \<and> chunk_num (ex ! i) = Some (S (fmt_d (k + int i)))
           \<and> req_headers (fst (ex ! i)) ''content-length'' = Some (I (size' (cs ! i)))
           \<and> last_marker (ex ! i) = (if Suc i = length cs then Some (S ''true'') else None))"
  using assms
proof (induction cs arbitrary: k hs n res ex n')
  case Nil
  then show ?case by simp
next
  case (Cons c rest)
  define hs2 where "hs2 = chunk_headers cnt k c hs"
  define R where "R = max (upload_chunk_retries f) 1"
  obtain pr blk n1 where p: "post_with_retries cl H u c hs2 R None n = (pr, blk, n1)"
    by (cases "post_with_retries cl H u c hs2 R None n") auto
  from block_facts[OF p[unfolded R_def]]
  have rs: "retry_summary H R pr blk" and rq: "\<forall>e \<in> set blk. fst e = chunk_request u c hs2"
    by (simp_all add: R_def)
  have step: "upload_chunks cl H f u cnt k (c # rest) hs n =
     (case after_retries k c hs2 pr of
        Inl e \<Rightarrow> (Inl e, blk, n1)
      | Inr hs' \<Rightarrow>
          (case upload_chunks cl H f u cnt (k + 1) rest hs' n1 of
             (res, ex', n2) \<Rightarrow> (res, blk @ ex', n2)))"
    using p by (simp add: upload_chunks_Cons hs2_def R_def del: upload_chunks.simps)
  have sub: "set blk \<subseteq> set ex"
    using Cons.prems(1) unfolding step by (auto split: sum.splits prod.splits)
  have "\<forall>e \<in> set blk. \<not> mismatched H e"
    using Cons.prems(4) sub matched_not_mismatched by blast
  from retry_summary_single[OF rs this] obtain e0 where blk: "blk = [e0]"
    by (cases blk) auto
  have kc: "k = cnt \<longleftrightarrow> rest = []" using Cons.prems(2) by auto
  have e0: "url (fst e0) = u \<and> data (fst e0) = chunk_data c
          \<and> chunk_num e0 = Some (S (fmt_d k))
          \<and> req_headers (fst e0) ''content-length'' = Some (I (size' c))
          \<and> last_marker e0 = (if rest = [] then Some (S ''true'') else None)"
    using rq blk kc Cons.prems(3)
    by (simp add: chunk_request_def hs2_def chunk_num_def last_marker_def)
  show ?case
  proof (cases "after_retries k c hs2 pr")
    case (Inl e)
    with Cons.prems(1)[unfolded step] have "res = Inl e" and "ex = [e0]" by (simp_all add: blk)
    with e0 show ?thesis by simp
  next
    case (Inr hs')
    obtain res2 ex2 n2 where rec: "upload_chunks cl H f u cnt (k + 1) rest hs' n1 = (res2, ex2, n2)"
      by (cases "upload_chunks cl H f u cnt (k + 1) rest hs' n1") auto
    with Cons.prems(1)[unfolded step] Inr have res: "res = res2" and ex: "ex = e0 # ex2"
      by (simp_all add: blk)
    show ?thesis
    proof (cases "rest = []")
      case True
      with rec have "res2 = Inr ()" "ex2 = []" by simp_all
      with res ex e0 True show ?thesis by simp
    next
      case False
      with kc have "k \<noteq> cnt" by simp
      then have "hs2 ''x-egnyte-last-chunk'' = None" using Cons.prems(3) by (simp add: hs2_def)
      moreover have "hs' = hs2 \<or> (\<exists>v. hs' = hs2(''x-egnyte-upload-id'' \<mapsto> S v))"
        using after_retries_Inr(3,4)[OF rs Inr] by (cases "k = 1") auto
      ultimately have h': "hs' ''x-egnyte-last-chunk'' = None" by auto
      have c': "cnt = k + 1 + int (length rest) - 1" using Cons.prems(2) by simp
      have m': "\<forall>e \<in> set ex2. matched H e" using Cons.prems(4) ex by simp
      from Cons.IH[OF rec c' h' m']
      have ih1: "length ex2 \<le> length rest" and ih2: "res2 = Inr () \<longrightarrow> length ex2 = length rest"
        and ih3: "\<forall>i < length ex2.
             url (fst (ex2 ! i)) = u
           \<and> data (fst (ex2 ! i)) = chunk_data (rest ! i)
           \<and> chunk_num (ex2 ! i) = Some (S (fmt_d (k + 1 + int i)))
           \<and> req_headers (fst (ex2 ! i)) ''content-length'' = Some (I (size' (rest ! i)))
           \<and> last_marker (ex2 ! i) = (if Suc i = length rest then Some (S ''true'') else None)"
        by simp_all
      have "\<forall>i < length ex.
             url (fst (ex ! i)) = u
           \<and> data (fst (ex ! i)) = chunk_data ((c # rest) ! i)
           \<and> chunk_num (ex ! i) = Some (S (fmt_d (k + int i)))
           \<and> req_headers (fst (ex ! i)) ''content-length'' = Some (I (size' ((c # rest) ! i)))
           \<and> last_marker (ex ! i) = (if Suc i = length (c # rest) then Some (S ''true'') else None)"
      proof (intro allI impI)
        fix i assume i: "i < length ex"
        show "url (fst (ex ! i)) = u
           \<and> data (fst (ex ! i)) = chunk_data ((c # rest) ! i)
           \<and> chunk_num (ex ! i) = Some (S (fmt_d (k + int i)))
           \<and> req_headers (fst (ex ! i)) ''content-length'' = Some (I (size' ((c # rest) ! i)))
           \<and> last_marker (ex ! i) = (if Suc i = length (c # rest) then Some (S ''true'') else None)"
        proof (cases i)
          case 0
          with e0 False ex show ?thesis by simp
        next
          case (Suc j)
          with i ex have "j < length ex2" by simp
          with ih3 have "url (fst (ex2 ! j)) = u
           \<and> data (fst (ex2 ! j)) = chunk_data (rest ! j)
           \<and> chunk_num (ex2 ! j) = Some (S (fmt_d (k + 1 + int j)))
           \<and> req_headers (fst (ex2 ! j)) ''content-length'' = Some (I (size' (rest ! j)))
           \<and> last_marker (ex2 ! j) = (if Suc j = length rest then Some (S ''true'') else None)"
            by blast
          moreover have "k + 1 + int j = k + int (Suc j)" by simp
          ultimately show ?thesis unfolding Suc ex by (simp del: of_nat_Suc)
        qed
      qed
      with ih1 ih2 res ex show ?thesis by simp
    qed
  qed
qed

lemma chunked_upload_loop:
  "chunked_upload cl H f fobj sz n =
     upload_loop cl H f (get_url cl url_content_chunked_template [(''path'', path f)]) fobj sz n"
  by (simp add: chunked_upload_def upload_loop_def Let_def)

lemma after_retries_good:
  assumes "retry_summary H R' pr blk" and "matched H (last blk)" and "success (snd (last blk))"
    and "k = 1 \<longrightarrow> resp_headers (snd (last blk)) ''x-egnyte-upload-id'' \<noteq> None"
  shows "\<exists>hs'. after_retries k c hs2 pr = Inr hs'"
  using assms
  by (auto simp: retry_summary_def after_retries_def check_response_def success_def matched_def
      split: sum.splits prod.splits if_splits option.splits)

lemma upload_chunks_all_good:
  assumes "upload_chunks cl H f u cnt k cs hs n = (res, ex, n')"
    and "\<forall>e \<in> set ex. matched H e \<and> success (snd e)"
    and "\<forall>e \<in> set ex. chunk_num e = Some (S (fmt_d 1)) \<longrightarrow>
           resp_headers (snd e) ''x-egnyte-upload-id'' \<noteq> None"
  shows "res = Inr () \<and> length ex = length cs"
  using assms
proof (induction cs arbitrary: k hs n res ex n')
  case Nil
  then show ?case by simp
next
  case (Cons c rest)
  define hs2 where "hs2 = chunk_headers cnt k c hs"
  define R where "R = max (upload_chunk_retries f) 1"
  obtain pr blk n1 where p: "post_with_retries cl H u c hs2 R None n = (pr, blk, n1)"
    by (cases "post_with_retries cl H u c hs2 R None n") auto
  from block_facts[OF p[unfolded R_def]]
  have rs: "retry_summary H R pr blk" and rq: "\<forall>e \<in> set blk. fst e = chunk_request u c hs2"
    by (simp_all add: R_def)
  have ne: "blk \<noteq> []" using rs by (rule retry_summary_nonempty)
  have step: "upload_chunks cl H f u cnt k (c # rest) hs n =
     (case after_retries k c hs2 pr of
        Inl e \<Rightarrow> (Inl e, blk, n1)
      | Inr hs' \<Rightarrow>
          (case upload_chunks cl H f u cnt (k + 1) rest hs' n1 of
             (res, ex', n2) \<Rightarrow> (res, blk @ ex', n2)))"
    using p by (simp add: upload_chunks_Cons hs2_def R_def del: upload_chunks.simps)
  have sub: "set blk \<subseteq> set ex"
    using Cons.prems(1) unfolding step by (auto split: sum.splits prod.splits)
  have "\<forall>e \<in> set blk. \<not> mismatched H e"
    using Cons.prems(2) sub matched_not_mismatched by blast
  from retry_summary_single[OF rs this] have one: "length blk = 1" .
  have lst: "last blk \<in> set ex" using ne sub by auto
  have m: "matched H (last blk)" and s: "success (snd (last blk))"
    using Cons.prems(2) lst by simp_all
  have "chunk_num (last blk) = Some (S (fmt_d k))"
    using block_chunk_num[OF rq[unfolded hs2_def], of "last blk"] ne by simp
  then have i: "k = 1 \<longrightarrow> resp_headers (snd (last blk)) ''x-egnyte-upload-id'' \<noteq> None"
    using Cons.prems(3) lst by auto
  from after_retries_good[OF rs m s i] obtain hs' where ar: "after_retries k c hs2 pr = Inr hs'"
    by blast
  obtain res2 ex2 n2 where rec: "upload_chunks cl H f u cnt (k + 1) rest hs' n1 = (res2, ex2, n2)"
    by (cases "upload_chunks cl H f u cnt (k + 1) rest hs' n1") auto
  with Cons.prems(1)[unfolded step] ar have res: "res = res2" and ex: "ex = blk @ ex2"
    by simp_all
  have g2: "\<forall>e \<in> set ex2. matched H e \<and> success (snd e)" using Cons.prems(2) ex by simp
  have u2: "\<forall>e \<in> set ex2. chunk_num e = Some (S (fmt_d 1)) \<longrightarrow>
           resp_headers (snd e) ''x-egnyte-upload-id'' \<noteq> None"
    using Cons.prems(3) ex by simp
  from Cons.IH[OF rec g2 u2] res ex one show ?case by simp
qed

section \<open>Draining a download\<close>

lemma drain_drained:
  "fst (drain w it k) = None \<Longrightarrow>
     snd (snd (drain w it k)) = foldl (\<lambda>k c. snd (w k c)) k (yielded it)"
proof (induction it arbitrary: k)
  case (StopIteration r)
  then show ?case by simp
next
  case (Raise e r)
  then show ?case by simp
next
  case (Yield c r rest)
  show ?case
  proof (cases "w k c")
    case (Pair eo k1)
    show ?thesis
    proof (cases eo)
      case None
      with Pair Yield.prems have "fst (drain w rest k1) = None" by simp
      from Yield.IH[OF this] Pair None show ?thesis by simp
    next
      case (Some e)
      with Pair Yield.prems show ?thesis by simp
    qed
  qed
qed

lemma write_to_closes_response:
  fixes api :: "'r response_obj" and w :: "'k \<Rightarrow> string \<Rightarrow> error option \<times> 'k"
    and d :: "'r FileDownload" and k :: 'k
  defines "it \<equiv> iter_content api d (16 * 1024)"
  defines "out \<equiv> write_to api w d k"
  shows "response (fst (snd out)) = snd (close_r api (fst (snd (drain w it k))))
       \<and> (fst out = Inr () \<longrightarrow>
             snd (snd out) = foldl (\<lambda>k c. snd (w k c)) k (yielded it))"
proof -
  obtain be r1 k1 where dr: "drain w it k = (be, r1, k1)"
    by (cases "drain w it k") auto
  obtain ce r2 where cl: "close_r api r1 = (ce, r2)"
    by (cases "close_r api r1") auto
  have out: "out = ((case ce of Some e \<Rightarrow> Inl e
                     | None \<Rightarrow> (case be of Some e \<Rightarrow> Inl e | None \<Rightarrow> Inr ())),
                    d\<lparr>response := r2\<rparr>, k1)"
    using dr cl by (simp add: out_def write_to_def it_def close_def)
  have a: "response (fst (snd out)) = snd (close_r api (fst (snd (drain w it k))))"
    by (simp add: out dr cl)
  have c: "snd (snd out) = foldl (\<lambda>k c. snd (w k c)) k (yielded it)" if "fst out = Inr ()"
  proof -
    from that have "be = None" by (simp add: out split: option.splits)
    with dr have "fst (drain w it k) = None" by simp
    from drain_drained[OF this] dr show ?thesis by (simp add: out)
  qed
  from a c show ?thesis by blast
qed

section \<open>Evaluation of the examples\<close>

lemmas ev = upload_size_def upload_fp_def BytesIO_def get_file_size_def default_File_def
      scripted_client_def scripted_POST_def good_reply_def corrupt_reply_def failed_reply_def
      corrupt_failed_reply_def reply_def success_def

lemmas loop_ev = upload_loop_def split_file_into_chunks_def split_from.simps default_File_def
  post_with_retries.simps ev Let_def chunk_request_def hexdigest_def chunk_data_def
  check_response_def source_250MiB_def no_id_reply_def

lemmas dl_ev = write_to_def iter_content_def close_def closed'_def read_def stream_api_def
  requests_api_def
  bounded_write_def

section \<open>The claims\<close>

text \<open>
  C10: a raw byte string given to \<open>upload\<close> is first wrapped in an in-memory stream
  positioned at its start, before the size is found and before the branch on it, so the
  call behaves exactly as the call on a fresh stream that holds the same bytes.
\<close>

theorem upload_bytes_wrapped:
  "upload cl H f (Binary b) size_arg n = upload cl H f (FileObj (BytesIO b)) size_arg n
   \<and> upload_fp (Binary b) = \<lparr>content = b, pos = 0\<rparr>"
  by (simp add: upload_def upload_fp_def upload_size_def BytesIO_def split: option.splits)

text \<open>
  C6: a single-request upload makes exactly one request. A status that is not a success
  fails with \<open>TransferFailed\<close> whatever the headers are; on a success status the
  digest of the body sent is compared with the header \<open>X-Sha512-Checksum\<close>, a difference
  fails with the checksum error that carries an empty context, without a second request,
  and equality returns without a value.
\<close>

theorem single_upload_outcome:
  fixes cl :: "'n client" and f :: File and src :: source and size_arg :: "int option" and n :: 'n
    and H :: "string \<Rightarrow> string"
  assumes small: "upload_size src size_arg < upload_chunk_size f"
  defines "sz \<equiv> upload_size src size_arg"
  defines "rq \<equiv> \<lparr>url = get_url cl url_content_template [(''path'', path f)],
                  data = take (nat sz) (content (upload_fp src)),
                  req_headers = [''Content-length'' \<mapsto> I sz]\<rparr>"
  defines "r \<equiv> fst (POST cl rq n)"
  shows "fst (snd (upload cl H f src size_arg n)) = [(rq, r)]
       \<and> snd (snd (upload cl H f src size_arg n)) = snd (POST cl rq n)
       \<and> fst (upload cl H f src size_arg n) =
           (if \<not> success r then Inl TransferFailed
            else case resp_headers r ''X-Sha512-Checksum'' of
                   None \<Rightarrow> Inl (KeyError ''X-Sha512-Checksum'')
                 | Some server_sha \<Rightarrow>
                     if server_sha \<noteq> H (data rq) then Inl (ChecksumError ''Failed to upload file'' [])
                     else Inr ())"
  using small
  by (simp add: upload_def single_upload_def Let_def check_response_def chunk_data_def hexdigest_def
      success_def sz_def rq_def r_def split: option.splits)

theorem single_upload_outcome_witness:
  "upload_size (Binary ''hello'') None < upload_chunk_size (default_File ''/Shared/a.txt'')
   \<and> fst (upload scripted_client demo_digest (default_File ''/Shared/a.txt'') (Binary ''hello'') None
            [good_reply ''u1'']) = Inr ()
   \<and> fst (upload scripted_client demo_digest (default_File ''/Shared/a.txt'') (Binary ''hello'') None
            [corrupt_reply ''u1'', good_reply ''u1'']) = Inl (ChecksumError ''Failed to upload file'' [])
   \<and> length (fst (snd (upload scripted_client demo_digest (default_File ''/Shared/a.txt'')
            (Binary ''hello'') None [corrupt_reply ''u1'', good_reply ''u1'']))) = 1
   \<and> fst (upload scripted_client demo_digest (default_File ''/Shared/a.txt'') (Binary ''hello'') None
            [corrupt_failed_reply ''u1'']) = Inl TransferFailed"
  using single_upload_outcome[of "Binary ''hello''" None "default_File ''/Shared/a.txt''"
          scripted_client demo_digest "[good_reply ''u1'']"]
        single_upload_outcome[of "Binary ''hello''" None "default_File ''/Shared/a.txt''"
          scripted_client demo_digest "[corrupt_reply ''u1'', good_reply ''u1'']"]
        single_upload_outcome[of "Binary ''hello''" None "default_File ''/Shared/a.txt''"
          scripted_client demo_digest "[corrupt_failed_reply ''u1'']"]
  by (simp add: ev)

text \<open>
  C7: the length of a download is the integer the \<open>content-length\<close> header of the
  response denotes; without that header the call fails with the \<open>KeyError\<close> of the
  lookup, which is what the spec names \<open>LengthUnavailable\<close>.
\<close>

theorem length_from_header:
  "(headers_r api (response d) ''content-length'' = None \<longrightarrow>
      len_FileDownload api d = Inl (KeyError ''content-length''))
   \<and> (\<forall>v i. headers_r api (response d) ''content-length'' = Some v \<and> py_int v = Some i \<longrightarrow>
      len_FileDownload api d = Inr i)
   \<and> (\<forall>m. headers_r api (response d) ''content-length'' = Some (string_of_nat m) \<longrightarrow>
      len_FileDownload api d = Inr (int m))"
  by (simp add: len_FileDownload_def py_int_string_of_nat)

theorem length_from_header_witness:
  "len_FileDownload stream_api
      \<lparr>response = \<lparr>s_headers = [(''content-length'', ''1024'')], s_body = [], s_fault = False, s_closed = False\<rparr>\<rparr>
     = Inr 1024
   \<and> len_FileDownload stream_api
      \<lparr>response = \<lparr>s_headers = [(''content-type'', ''text/plain'')], s_body = [], s_fault = False, s_closed = False\<rparr>\<rparr>
     = Inl (KeyError ''content-length'')"
proof -
  have p: "py_int ''1024'' = Some 1024"
    by (simp add: py_int_def strip_def is_space_def digit_of_def Let_def)
  show ?thesis
    using length_from_header[of stream_api
        "\<lparr>response = \<lparr>s_headers = [(''content-length'', ''1024'')], s_body = [], s_fault = False, s_closed = False\<rparr>\<rparr>"]
      length_from_header[of stream_api
        "\<lparr>response = \<lparr>s_headers = [(''content-type'', ''text/plain'')], s_body = [], s_fault = False, s_closed = False\<rparr>\<rparr>"]
      p
    by (simp add: stream_api_def)
qed

text \<open>
  C1: with \<open>sz\<close> the size \<open>upload\<close> works with (the argument, or the size found), a size
  below the chunk size makes the call the single-request upload: exactly one request, to
  the content URL, whose only header is \<open>Content-length\<close>, so no chunk number. A size
  from the chunk size upwards makes the call the chunked upload, every request of which
  goes to the chunked URL and carries a chunk number.
\<close>

theorem upload_decision:
  fixes cl :: "'n client" and f :: File and src :: source and size_arg :: "int option" and n :: 'n
    and H :: "string \<Rightarrow> string"
  defines "sz \<equiv> upload_size src size_arg"
  defines "run \<equiv> upload cl H f src size_arg n"
  shows "(sz < upload_chunk_size f \<longrightarrow>
            run = single_upload cl H f (upload_fp src) sz n
          \<and> length (fst (snd run)) = 1
          \<and> (\<forall>e \<in> set (fst (snd run)).
                url (fst e) = get_url cl url_content_template [(''path'', path f)]
              \<and> dom (req_headers (fst e)) = {''Content-length''}
              \<and> chunk_num e = None))
       \<and> (upload_chunk_size f \<le> sz \<longrightarrow>
            run = chunked_upload cl H f (upload_fp src) sz n
          \<and> (\<forall>e \<in> set (fst (snd run)).
                url (fst e) = get_url cl url_content_chunked_template [(''path'', path f)]
              \<and> chunk_num e \<noteq> None))"
proof (intro conjI impI)
  assume small: "sz < upload_chunk_size f"
  then show "run = single_upload cl H f (upload_fp src) sz n"
    by (simp add: run_def upload_def sz_def Let_def)
  then show "length (fst (snd run)) = 1"
    by (simp add: single_upload_def Let_def split: sum.splits option.splits)
  from \<open>run = single_upload cl H f (upload_fp src) sz n\<close>
  show "\<forall>e \<in> set (fst (snd run)).
                url (fst e) = get_url cl url_content_template [(''path'', path f)]
              \<and> dom (req_headers (fst e)) = {''Content-length''}
              \<and> chunk_num e = None"
    by (simp add: single_upload_def Let_def chunk_num_def split: sum.splits option.splits)
next
  assume big: "upload_chunk_size f \<le> sz"
  then show eq: "run = chunked_upload cl H f (upload_fp src) sz n"
    by (simp add: run_def upload_def sz_def Let_def)
  show "\<forall>e \<in> set (fst (snd run)).
                url (fst e) = get_url cl url_content_chunked_template [(''path'', path f)]
              \<and> chunk_num e \<noteq> None"
    unfolding eq using chunked_upload_requests[of _ cl H f "upload_fp src" sz n] by auto
qed

theorem upload_decision_witness:
  "upload_size (Binary ''hel'') None < upload_chunk_size tiny_File
   \<and> length (fst (snd (upload scripted_client demo_digest tiny_File (Binary ''hel'') None
        [good_reply ''u1'']))) = 1
   \<and> upload_chunk_size tiny_File \<le> upload_size (Binary ''abcdefghij'') None
   \<and> map chunk_num (fst (snd (upload scripted_client demo_digest tiny_File (Binary ''abcdefghij'') None
        [good_reply ''u1'', good_reply ''u2'', good_reply ''u3''])))
      = [Some (S ''1''), Some (S ''2''), Some (S ''3'')]"
proof -
  have h1: "upload_size (Binary ''hel'') None < upload_chunk_size tiny_File" by code_simp
  have h2: "upload_chunk_size tiny_File \<le> upload_size (Binary ''abcdefghij'') None" by code_simp
  have c2: "map chunk_num (fst (snd (chunked_upload scripted_client demo_digest tiny_File
        (upload_fp (Binary ''abcdefghij'')) (upload_size (Binary ''abcdefghij'') None)
        [good_reply ''u1'', good_reply ''u2'', good_reply ''u3''])))
      = [Some (S ''1''), Some (S ''2''), Some (S ''3'')]" by code_simp
  from upload_decision[of "Binary ''hel''" None tiny_File scripted_client demo_digest
            "[good_reply ''u1'']"] h1
  have a: "length (fst (snd (upload scripted_client demo_digest tiny_File (Binary ''hel'') None
        [good_reply ''u1'']))) = 1" by blast
  from upload_decision[of "Binary ''abcdefghij''" None tiny_File scripted_client demo_digest
            "[good_reply ''u1'', good_reply ''u2'', good_reply ''u3'']"] h2
  have b: "upload scripted_client demo_digest tiny_File (Binary ''abcdefghij'') None
        [good_reply ''u1'', good_reply ''u2'', good_reply ''u3'']
      = chunked_upload scripted_client demo_digest tiny_File
        (upload_fp (Binary ''abcdefghij'')) (upload_size (Binary ''abcdefghij'') None)
        [good_reply ''u1'', good_reply ''u2'', good_reply ''u3'']" by blast
  show ?thesis using h1 h2 a c2 unfolding b by blast
qed

text \<open>
  C3: in a chunked upload, when chunk \<open>k\<close> is attempted and the checksum the server reports
  differs from the digest of the chunk on every attempt made for it, there were exactly
  \<open>max retries 1\<close> such attempts, the call fails with the checksum error that carries
  \<open>chunk_number = k\<close> and the start position of that chunk, and every request issued is
  for a chunk numbered at most \<open>k\<close>: none for a later chunk.
\<close>

theorem chunk_checksum_exhausted:
  fixes cl :: "'n client" and f :: File and fobj :: fileobj and sz :: int and n :: 'n
    and H :: "string \<Rightarrow> string" and k :: int
  defines "chunks \<equiv> split_file_into_chunks fobj sz (upload_chunk_size f)"
  defines "run \<equiv> chunked_upload cl H f fobj sz n"
  defines "attempts \<equiv> filter (\<lambda>e. chunk_num e = Some (S (fmt_d k))) (fst (snd run))"
  assumes attempted: "attempts \<noteq> []"
    and differs: "\<forall>e \<in> set attempts. mismatched H e"
  shows "1 \<le> k \<and> k \<le> int (length chunks)
       \<and> int (length attempts) = max (upload_chunk_retries f) 1
       \<and> fst run = Inl (ChecksumError ''Failed to upload file chunk''
                         [(''chunk_number'', k), (''start_position'', position (chunks ! nat (k - 1)))])
       \<and> (\<forall>e \<in> set (fst (snd run)). \<exists>j. 1 \<le> j \<and> j \<le> k \<and> chunk_num e = Some (S (fmt_d j)))"
proof -
  define u where "u = get_url cl url_content_chunked_template [(''path'', path f)]"
  obtain res ex n' where uc:
    "upload_chunks cl H f u (int (length chunks)) 1 chunks Map.empty n = (res, ex, n')"
    by (cases "upload_chunks cl H f u (int (length chunks)) 1 chunks Map.empty n") auto
  then have run: "run = (res, ex, n')"
    by (simp add: run_def chunked_upload_def Let_def u_def chunks_def)
  have a: "filter (\<lambda>e. chunk_num e = Some (S (fmt_d k))) ex \<noteq> []"
    using attempted by (simp add: attempts_def run)
  have b: "\<forall>e \<in> set ex. chunk_num e = Some (S (fmt_d k)) \<longrightarrow> mismatched H e"
    using differs by (auto simp: attempts_def run)
  from upload_chunks_exhausted[OF uc a b] show ?thesis
    by (simp add: run attempts_def)
qed

theorem chunk_checksum_exhausted_witness:
  "filter (\<lambda>e. chunk_num e = Some (S (fmt_d 2)))
      (fst (snd (chunked_upload scripted_client demo_digest tiny_File (BytesIO ''abcdefghij'') 10
         [good_reply ''u1'', corrupt_reply ''u1'', corrupt_failed_reply ''u1'', corrupt_reply ''u1'',
          good_reply ''u1'']))) \<noteq> []
   \<and> fst (chunked_upload scripted_client demo_digest tiny_File (BytesIO ''abcdefghij'') 10
         [good_reply ''u1'', corrupt_reply ''u1'', corrupt_failed_reply ''u1'', corrupt_reply ''u1'',
          good_reply ''u1''])
      = Inl (ChecksumError ''Failed to upload file chunk'' [(''chunk_number'', 2), (''start_position'', 4)])
   \<and> length (fst (snd (chunked_upload scripted_client demo_digest tiny_File (BytesIO ''abcdefghij'') 10
         [good_reply ''u1'', corrupt_reply ''u1'', corrupt_failed_reply ''u1'', corrupt_reply ''u1'',
          good_reply ''u1'']))) = 4"
proof -
  let ?run = "chunked_upload scripted_client demo_digest tiny_File (BytesIO ''abcdefghij'') 10
         [good_reply ''u1'', corrupt_reply ''u1'', corrupt_failed_reply ''u1'', corrupt_reply ''u1'',
          good_reply ''u1'']"
  have h1: "filter (\<lambda>e. chunk_num e = Some (S (fmt_d 2))) (fst (snd ?run)) \<noteq> []"
    by code_simp
  have h2: "\<forall>e \<in> set (filter (\<lambda>e. chunk_num e = Some (S (fmt_d 2))) (fst (snd ?run))).
              mismatched demo_digest e"
    by code_simp
  have p: "position (split_file_into_chunks (BytesIO ''abcdefghij'') 10 (upload_chunk_size tiny_File)
              ! nat (2 - 1)) = 4"
    by code_simp
  have l: "length (fst (snd ?run)) = 4" by code_simp
  from chunk_checksum_exhausted[OF h1 h2] p l h1 show ?thesis by simp
qed

text \<open>
  C4: split the exchanges of a chunked upload into those of chunk 1 and those after. The
  requests of chunk 1 carry no upload-session identifier. When there is a later request,
  chunk 1 ended on a response with the right checksum and a success status, and every
  later request carries the identifier of that response's \<open>x-egnyte-upload-id\<close> header:
  the same value for the rest of the upload.
\<close>

theorem upload_session_id_kept:
  fixes cl :: "'n client" and f :: File and fobj :: fileobj and sz :: int and n :: 'n
    and H :: "string \<Rightarrow> string"
  defines "ex \<equiv> fst (snd (chunked_upload cl H f fobj sz n))"
  defines "first \<equiv> takeWhile (\<lambda>e. chunk_num e = Some (S (fmt_d 1))) ex"
  defines "later \<equiv> dropWhile (\<lambda>e. chunk_num e = Some (S (fmt_d 1))) ex"
  shows "(\<forall>e \<in> set first. req_headers (fst e) ''x-egnyte-upload-id'' = None)
       \<and> (\<forall>e \<in> set later. chunk_num e \<noteq> Some (S (fmt_d 1)))
       \<and> (later \<noteq> [] \<longrightarrow>
            first \<noteq> [] \<and> matched H (last first) \<and> success (snd (last first))
          \<and> (\<exists>v. resp_headers (snd (last first)) ''x-egnyte-upload-id'' = Some v
                \<and> (\<forall>e \<in> set later. req_headers (fst e) ''x-egnyte-upload-id'' = Some (S v))))"
proof -
  define u where "u = get_url cl url_content_chunked_template [(''path'', path f)]"
  define chunks where "chunks = split_file_into_chunks fobj sz (upload_chunk_size f)"
  define cnt where "cnt = int (length chunks)"
  define P where "P = (\<lambda>e. chunk_num e = Some (S (fmt_d 1)))"
  obtain res n' where uc: "upload_chunks cl H f u cnt 1 chunks Map.empty n = (res, ex, n')"
    by (cases "upload_chunks cl H f u cnt 1 chunks Map.empty n")
       (auto simp: ex_def chunked_upload_def Let_def u_def chunks_def cnt_def)
  show ?thesis
  proof (cases chunks)
    case Nil
    with uc have "ex = []" by simp
    then show ?thesis by (simp add: first_def later_def)
  next
    case (Cons c rest)
    define hs2 where "hs2 = chunk_headers cnt 1 c Map.empty"
    define R where "R = max (upload_chunk_retries f) 1"
    obtain pr blk n1 where p: "post_with_retries cl H u c hs2 R None n = (pr, blk, n1)"
      by (cases "post_with_retries cl H u c hs2 R None n") auto
    from block_facts[OF p[unfolded R_def]]
    have rs: "retry_summary H R pr blk" and rq: "\<forall>e \<in> set blk. fst e = chunk_request u c hs2"
      by (simp_all add: R_def)
    have ne: "blk \<noteq> []" using rs by (rule retry_summary_nonempty)
    have step: "upload_chunks cl H f u cnt 1 (c # rest) Map.empty n =
       (case after_retries 1 c hs2 pr of
          Inl e \<Rightarrow> (Inl e, blk, n1)
        | Inr hs' \<Rightarrow>
            (case upload_chunks cl H f u cnt (1 + 1) rest hs' n1 of
               (res, ex', n2) \<Rightarrow> (res, blk @ ex', n2)))"
      using p by (simp add: upload_chunks_Cons hs2_def R_def del: upload_chunks.simps)
    have uc': "upload_chunks cl H f u cnt 1 (c # rest) Map.empty n = (res, ex, n')"
      using uc Cons by (simp del: upload_chunks.simps)
    have blkP: "\<forall>e \<in> set blk. P e \<and> req_headers (fst e) ''x-egnyte-upload-id'' = None"
      using rq by (simp add: P_def hs2_def chunk_request_def chunk_num_def)
    show ?thesis
    proof (cases "after_retries 1 c hs2 pr")
      case (Inl e)
      with uc'[unfolded step] have "ex = blk" by simp
      with blkP have tw: "takeWhile P ex = blk" and dw: "dropWhile P ex = []" by simp_all
      show ?thesis
        unfolding first_def later_def P_def[symmetric] tw dw
        using blkP by (simp add: P_def)
    next
      case (Inr hs')
      obtain res2 ex2 n2 where rec: "upload_chunks cl H f u cnt (1 + 1) rest hs' n1 = (res2, ex2, n2)"
        by (cases "upload_chunks cl H f u cnt (1 + 1) rest hs' n1") auto
      with uc'[unfolded step] Inr have ex: "ex = blk @ ex2" by simp
      from after_retries_Inr(4)[OF rs Inr] obtain v where
        v: "resp_headers (snd (last blk)) ''x-egnyte-upload-id'' = Some v"
        and hs': "hs' = hs2(''x-egnyte-upload-id'' \<mapsto> S v)" by auto
      have m: "matched H (last blk)" and s: "success (snd (last blk))"
        using after_retries_Inr(1,2)[OF rs Inr] by simp_all
      have "hs' ''x-egnyte-upload-id'' = Some (S v)" using hs' by simp
      from upload_chunks_session[OF rec _ this]
      have ex2: "\<forall>e \<in> set ex2. req_headers (fst e) ''x-egnyte-upload-id'' = Some (S v) \<and> \<not> P e"
        by (simp add: P_def)
      have tw: "takeWhile P ex = blk"
        unfolding ex using blkP ex2 by (cases ex2) (simp_all add: takeWhile_append2)
      have dw: "dropWhile P ex = ex2"
        unfolding ex using blkP ex2 by (cases ex2) (simp_all add: dropWhile_append2)
      show ?thesis
        unfolding first_def later_def P_def[symmetric] tw dw
        using blkP ex2 ne m s v by (auto simp: P_def)
    qed
  qed
qed

theorem upload_session_id_kept_witness:
  "dropWhile (\<lambda>e. chunk_num e = Some (S (fmt_d 1)))
      (fst (snd (chunked_upload scripted_client demo_digest tiny_File (BytesIO ''abcdefghij'') 10
         [corrupt_reply ''s0'', good_reply ''s1'', good_reply ''s2'', good_reply ''s3''])))
     \<noteq> []
   \<and> map (\<lambda>e. req_headers (fst e) ''x-egnyte-upload-id'')
      (fst (snd (chunked_upload scripted_client demo_digest tiny_File (BytesIO ''abcdefghij'') 10
         [corrupt_reply ''s0'', good_reply ''s1'', good_reply ''s2'', good_reply ''s3''])))
     = [None, None, Some (S ''s1''), Some (S ''s1'')]
   \<and> (\<exists>v. \<forall>e \<in> set (dropWhile (\<lambda>e. chunk_num e = Some (S (fmt_d 1)))
      (fst (snd (chunked_upload scripted_client demo_digest tiny_File (BytesIO ''abcdefghij'') 10
         [corrupt_reply ''s0'', good_reply ''s1'', good_reply ''s2'', good_reply ''s3''])))).
          req_headers (fst e) ''x-egnyte-upload-id'' = Some (S v))"
proof -
  let ?ex = "fst (snd (chunked_upload scripted_client demo_digest tiny_File (BytesIO ''abcdefghij'') 10
         [corrupt_reply ''s0'', good_reply ''s1'', good_reply ''s2'', good_reply ''s3'']))"
  have h: "dropWhile (\<lambda>e. chunk_num e = Some (S (fmt_d 1))) ?ex \<noteq> []" by code_simp
  have m: "map (\<lambda>e. req_headers (fst e) ''x-egnyte-upload-id'') ?ex
     = [None, None, Some (S ''s1''), Some (S ''s1'')]" by code_simp
  from upload_session_id_kept[of scripted_client demo_digest tiny_File "BytesIO ''abcdefghij''" 10
         "[corrupt_reply ''s0'', good_reply ''s1'', good_reply ''s2'', good_reply ''s3'']"] h
  have "\<exists>v. \<forall>e \<in> set (dropWhile (\<lambda>e. chunk_num e = Some (S (fmt_d 1))) ?ex).
          req_headers (fst e) ''x-egnyte-upload-id'' = Some (S v)" by blast
  with h m show ?thesis by blast
qed

text \<open>
  C5: a chunked upload fails with \<open>TransferFailed\<close> only on a response whose checksum
  matched: the status is looked at after the comparison succeeded. When the last response
  has a differing checksum, the call fails with the chunk checksum error, whatever the
  status of that response is.
\<close>

theorem status_checked_after_checksum:
  fixes cl :: "'n client" and f :: File and fobj :: fileobj and sz :: int and n :: 'n
    and H :: "string \<Rightarrow> string"
  defines "run \<equiv> chunked_upload cl H f fobj sz n"
  defines "ex \<equiv> fst (snd run)"
  shows "(fst run = Inl TransferFailed \<longrightarrow>
            ex \<noteq> [] \<and> matched H (last ex) \<and> \<not> success (snd (last ex)))
       \<and> (ex \<noteq> [] \<and> mismatched H (last ex) \<longrightarrow>
            (\<exists>j p. fst run = Inl (ChecksumError ''Failed to upload file chunk''
                                   [(''chunk_number'', j), (''start_position'', p)])))"
proof -
  define u where "u = get_url cl url_content_chunked_template [(''path'', path f)]"
  define chunks where "chunks = split_file_into_chunks fobj sz (upload_chunk_size f)"
  obtain res n' where uc:
    "upload_chunks cl H f u (int (length chunks)) 1 chunks Map.empty n = (res, ex, n')"
    by (cases "upload_chunks cl H f u (int (length chunks)) 1 chunks Map.empty n")
       (auto simp: ex_def run_def chunked_upload_def Let_def u_def chunks_def)
  then have run: "fst run = res"
    by (simp add: run_def chunked_upload_def Let_def u_def chunks_def)
  show ?thesis
    unfolding run
    using upload_chunks_TransferFailed[of cl H f u "int (length chunks)" 1 chunks Map.empty n ex n']
      upload_chunks_last_mismatched[OF uc] uc
    by blast
qed

theorem status_checked_after_checksum_witness:
  "fst (chunked_upload scripted_client demo_digest tiny_File (BytesIO ''abcdefghij'') 10
         [good_reply ''s1'', failed_reply ''s1'']) = Inl TransferFailed
   \<and> matched demo_digest (last (fst (snd (chunked_upload scripted_client demo_digest tiny_File
         (BytesIO ''abcdefghij'') 10 [good_reply ''s1'', failed_reply ''s1'']))))
   \<and> mismatched demo_digest (last (fst (snd (chunked_upload scripted_client demo_digest tiny_File
         (BytesIO ''abcdefghij'') 10
         [good_reply ''s1'', corrupt_failed_reply ''s1'', corrupt_failed_reply ''s1'',
          corrupt_failed_reply ''s1'']))))
   \<and> \<not> success (snd (last (fst (snd (chunked_upload scripted_client demo_digest tiny_File
         (BytesIO ''abcdefghij'') 10
         [good_reply ''s1'', corrupt_failed_reply ''s1'', corrupt_failed_reply ''s1'',
          corrupt_failed_reply ''s1''])))))
   \<and> (\<exists>j p. fst (chunked_upload scripted_client demo_digest tiny_File (BytesIO ''abcdefghij'') 10
         [good_reply ''s1'', corrupt_failed_reply ''s1'', corrupt_failed_reply ''s1'',
          corrupt_failed_reply ''s1''])
        = Inl (ChecksumError ''Failed to upload file chunk''
                 [(''chunk_number'', j), (''start_position'', p)]))"
proof -
  let ?a = "chunked_upload scripted_client demo_digest tiny_File (BytesIO ''abcdefghij'') 10
         [good_reply ''s1'', failed_reply ''s1'']"
  let ?b = "chunked_upload scripted_client demo_digest tiny_File (BytesIO ''abcdefghij'') 10
         [good_reply ''s1'', corrupt_failed_reply ''s1'', corrupt_failed_reply ''s1'',
          corrupt_failed_reply ''s1'']"
  have a: "fst ?a = Inl TransferFailed" by code_simp
  have b1: "fst (snd ?b) \<noteq> []" by code_simp
  have b2: "mismatched demo_digest (last (fst (snd ?b)))" by code_simp
  have b3: "\<not> success (snd (last (fst (snd ?b))))" by code_simp
  from status_checked_after_checksum[of scripted_client demo_digest tiny_File
         "BytesIO ''abcdefghij''" 10 "[good_reply ''s1'', failed_reply ''s1'']"] a
  have ma: "matched demo_digest (last (fst (snd ?a)))" by blast
  from status_checked_after_checksum[of scripted_client demo_digest tiny_File
         "BytesIO ''abcdefghij''" 10
         "[good_reply ''s1'', corrupt_failed_reply ''s1'', corrupt_failed_reply ''s1'',
           corrupt_failed_reply ''s1'']"] b1 b2
  have "\<exists>j p. fst ?b = Inl (ChecksumError ''Failed to upload file chunk''
                 [(''chunk_number'', j), (''start_position'', p)])" by blast
  with a ma b2 b3 show ?thesis by blast
qed

text \<open>
  C2, as stated, does not hold: a matching checksum on every first attempt does not carry
  the upload through all chunks. With chunks of 4 bytes and 10 bytes to send, three
  requests are due. When the second response has the right checksum and status 500, the
  upload stops after two requests with \<open>TransferFailed\<close>; when the first response has the
  right checksum and no \<open>x-egnyte-upload-id\<close>, it stops after one with \<open>KeyError\<close>.
\<close>

theorem first_try_count_counterexample:
  "upload_chunk_size tiny_File \<le> 10
   \<and> nat \<lceil>real_of_int 10 / real_of_int (upload_chunk_size tiny_File)\<rceil> = 3
   \<and> map (matched demo_digest)
        (fst (snd (chunked_upload scripted_client demo_digest tiny_File (BytesIO ''abcdefghij'') 10
           [good_reply ''s1'', failed_reply ''s1'', good_reply ''s1''])))
      = [True, True]
   \<and> fst (chunked_upload scripted_client demo_digest tiny_File (BytesIO ''abcdefghij'') 10
           [good_reply ''s1'', failed_reply ''s1'', good_reply ''s1'']) = Inl TransferFailed
   \<and> map (matched demo_digest)
        (fst (snd (chunked_upload scripted_client demo_digest tiny_File (BytesIO ''abcdefghij'') 10
           [no_id_reply, good_reply ''s1'', good_reply ''s1''])))
      = [True]
   \<and> fst (chunked_upload scripted_client demo_digest tiny_File (BytesIO ''abcdefghij'') 10
           [no_id_reply, good_reply ''s1'', good_reply ''s1''])
      = Inl (KeyError ''x-egnyte-upload-id'')"
proof -
  have a: "upload_chunk_size tiny_File \<le> 10" by (simp add: tiny_File_def)
  have b: "nat \<lceil>real_of_int 10 / real_of_int (upload_chunk_size tiny_File)\<rceil> = 3"
    by (simp add: tiny_File_def)
  have c: "map (matched demo_digest)
        (fst (snd (chunked_upload scripted_client demo_digest tiny_File (BytesIO ''abcdefghij'') 10
           [good_reply ''s1'', failed_reply ''s1'', good_reply ''s1''])))
      = [True, True]" by code_simp
  have d: "fst (chunked_upload scripted_client demo_digest tiny_File (BytesIO ''abcdefghij'') 10
           [good_reply ''s1'', failed_reply ''s1'', good_reply ''s1'']) = Inl TransferFailed"
    by code_simp
  have e: "map (matched demo_digest)
        (fst (snd (chunked_upload scripted_client demo_digest tiny_File (BytesIO ''abcdefghij'') 10
           [no_id_reply, good_reply ''s1'', good_reply ''s1''])))
      = [True]" by code_simp
  have f: "fst (chunked_upload scripted_client demo_digest tiny_File (BytesIO ''abcdefghij'') 10
           [no_id_reply, good_reply ''s1'', good_reply ''s1''])
      = Inl (KeyError ''x-egnyte-upload-id'')" by code_simp
  from a b c d e f show ?thesis by blast
qed

text \<open>
  C2, amended: take the upload from the point where the URL \<open>u\<close> of the chunked endpoint
  is at hand, with a positive chunk size \<open>cs\<close> and a size \<open>sz\<close> of at least \<open>cs\<close>. When every
  response received carries the checksum of the chunk it answers and a success status,
  and the response to chunk 1 carries an upload-session identifier, the call succeeds
  after exactly \<open>N\<close> requests, \<open>N\<close> the ceiling of \<open>sz / cs\<close>. They go to \<open>u\<close> in position
  order: request \<open>i\<close> (from 0) has chunk number \<open>i + 1\<close>, the bytes from \<open>i * cs\<close> on and the
  length \<open>min cs (sz - i * cs)\<close>; the last-chunk marker is on request \<open>N\<close> and on no other.
  For 250 MiB and chunks of 100 MiB these are three requests of 100, 100 and 50 MiB, the
  third one marked.
\<close>

theorem chunk_requests_when_replies_good:
  fixes cl :: "'n client" and f :: File and fobj :: fileobj and sz :: int and n :: 'n
    and H :: "string \<Rightarrow> string" and u :: string
  defines "cs \<equiv> upload_chunk_size f"
  defines "run \<equiv> upload_loop cl H f u fobj sz n"
  defines "ex \<equiv> fst (snd run)"
  defines "N \<equiv> nat \<lceil>real_of_int sz / real_of_int cs\<rceil>"
  assumes pos: "0 < cs" and big: "cs \<le> sz"
    and good: "\<forall>e \<in> set ex. matched H e \<and> success (snd e)"
    and first_id: "\<forall>e \<in> set ex. chunk_num e = Some (S (fmt_d 1)) \<longrightarrow>
           resp_headers (snd e) ''x-egnyte-upload-id'' \<noteq> None"
  shows "fst run = Inr () \<and> 1 \<le> N \<and> length ex = N
       \<and> (\<forall>i < N.
             url (fst (ex ! i)) = u
           \<and> chunk_num (ex ! i) = Some (S (fmt_d (int i + 1)))
           \<and> data (fst (ex ! i)) =
               chunk_data \<lparr>fp = fobj, position = int i * cs, size' = min cs (sz - int i * cs)\<rparr>
           \<and> req_headers (fst (ex ! i)) ''content-length'' = Some (I (min cs (sz - int i * cs)))
           \<and> last_marker (ex ! i) = (if Suc i = N then Some (S ''true'') else None))"
proof -
  define chunks where "chunks = split_file_into_chunks fobj sz cs"
  have len: "length chunks = N"
    unfolding chunks_def N_def by (rule split_file_into_chunks_length[OF pos])
  have nth: "chunks ! i = \<lparr>fp = fobj, position = int i * cs, size' = min cs (sz - int i * cs)\<rparr>"
    if "i < N" for i
    using split_file_into_chunks_nth[OF pos, of i fobj sz] that len
    by (simp add: chunks_def)
  obtain res n' where uc:
    "upload_chunks cl H f u (int (length chunks)) 1 chunks Map.empty n = (res, ex, n')"
    by (cases "upload_chunks cl H f u (int (length chunks)) 1 chunks Map.empty n")
       (auto simp: ex_def run_def upload_loop_def Let_def chunks_def cs_def)
  then have run: "fst run = res"
    by (simp add: run_def upload_loop_def Let_def chunks_def cs_def)
  from upload_chunks_all_good[OF uc good first_id]
  have ok: "res = Inr ()" and cnt: "length ex = N" by (simp_all add: len)
  have m: "\<forall>e \<in> set ex. matched H e" using good by simp
  from upload_chunks_first_try[OF uc _ _ m]
  have c: "\<forall>i < length ex.
             url (fst (ex ! i)) = u
           \<and> data (fst (ex ! i)) = chunk_data (chunks ! i)
           \<and> chunk_num (ex ! i) = Some (S (fmt_d (1 + int i)))
           \<and> req_headers (fst (ex ! i)) ''content-length'' = Some (I (size' (chunks ! i)))
           \<and> last_marker (ex ! i) = (if Suc i = N then Some (S ''true'') else None)"
    by (simp_all add: len)
  have one: "1 \<le> N"
  proof -
    have "0 < real_of_int sz / real_of_int cs" using pos big by simp
    then have "0 < \<lceil>real_of_int sz / real_of_int cs\<rceil>" by (simp only: zero_less_ceiling)
    then show ?thesis unfolding N_def by linarith
  qed
  have per: "\<forall>i < N.
             url (fst (ex ! i)) = u
           \<and> chunk_num (ex ! i) = Some (S (fmt_d (int i + 1)))
           \<and> data (fst (ex ! i)) =
               chunk_data \<lparr>fp = fobj, position = int i * cs, size' = min cs (sz - int i * cs)\<rparr>
           \<and> req_headers (fst (ex ! i)) ''content-length'' = Some (I (min cs (sz - int i * cs)))
           \<and> last_marker (ex ! i) = (if Suc i = N then Some (S ''true'') else None)"
  proof (intro allI impI)
    fix i assume i: "i < N"
    from nth[OF this] c i cnt
    show "url (fst (ex ! i)) = u
           \<and> chunk_num (ex ! i) = Some (S (fmt_d (int i + 1)))
           \<and> data (fst (ex ! i)) =
               chunk_data \<lparr>fp = fobj, position = int i * cs, size' = min cs (sz - int i * cs)\<rparr>
           \<and> req_headers (fst (ex ! i)) ''content-length'' = Some (I (min cs (sz - int i * cs)))
           \<and> last_marker (ex ! i) = (if Suc i = N then Some (S ''true'') else None)"
      by (simp add: add.commute)
  qed
  show ?thesis using ok one cnt per unfolding run by blast
qed

theorem chunk_requests_when_replies_good_witness:
  "0 < upload_chunk_size (default_File ''/Shared/big.bin'')
   \<and> upload_chunk_size (default_File ''/Shared/big.bin'') \<le> get_file_size source_250MiB
   \<and> map (\<lambda>e. matched demo_digest e \<and> success (snd e)
               \<and> resp_headers (snd e) ''x-egnyte-upload-id'' \<noteq> None)
         (fst (snd (upload_loop scripted_client demo_digest (default_File ''/Shared/big.bin'')
            ''https://acme.egnyte.com/pubapi/v1/fs-content-chunked/Shared/big.bin''
            source_250MiB (get_file_size source_250MiB)
            [good_reply ''s1'', good_reply ''s2'', good_reply ''s3''])))
      = [True, True, True]
   \<and> fst (upload_loop scripted_client demo_digest (default_File ''/Shared/big.bin'')
            ''https://acme.egnyte.com/pubapi/v1/fs-content-chunked/Shared/big.bin''
            source_250MiB (get_file_size source_250MiB)
            [good_reply ''s1'', good_reply ''s2'', good_reply ''s3'']) = Inr ()
   \<and> length (fst (snd (upload_loop scripted_client demo_digest (default_File ''/Shared/big.bin'')
            ''https://acme.egnyte.com/pubapi/v1/fs-content-chunked/Shared/big.bin''
            source_250MiB (get_file_size source_250MiB)
            [good_reply ''s1'', good_reply ''s2'', good_reply ''s3'']))) = 3
   \<and> map (\<lambda>i. req_headers (fst (fst (snd (upload_loop scripted_client demo_digest
            (default_File ''/Shared/big.bin'')
            ''https://acme.egnyte.com/pubapi/v1/fs-content-chunked/Shared/big.bin''
            source_250MiB (get_file_size source_250MiB)
            [good_reply ''s1'', good_reply ''s2'', good_reply ''s3''])) ! i)) ''content-length'')
        [0, 1, 2]
      = [Some (I (100 * (1024 * 1024))), Some (I (100 * (1024 * 1024))), Some (I (50 * (1024 * 1024)))]
   \<and> map (\<lambda>i. last_marker (fst (snd (upload_loop scripted_client demo_digest
            (default_File ''/Shared/big.bin'')
            ''https://acme.egnyte.com/pubapi/v1/fs-content-chunked/Shared/big.bin''
            source_250MiB (get_file_size source_250MiB)
            [good_reply ''s1'', good_reply ''s2'', good_reply ''s3''])) ! i)) [0, 1, 2]
      = [None, None, Some (S ''true'')]"
proof -
  let ?f = "default_File ''/Shared/big.bin''"
  let ?sz = "get_file_size source_250MiB"
  let ?run = "upload_loop scripted_client demo_digest ?f
          ''https://acme.egnyte.com/pubapi/v1/fs-content-chunked/Shared/big.bin''
          source_250MiB ?sz [good_reply ''s1'', good_reply ''s2'', good_reply ''s3'']"
  have h1: "0 < upload_chunk_size ?f" by (simp add: default_File_def)
  have h2: "upload_chunk_size ?f \<le> ?sz"
    by (simp add: default_File_def get_file_size_def source_250MiB_def BytesIO_def)
  have h3: "\<forall>e \<in> set (fst (snd ?run)). matched demo_digest e \<and> success (snd e)"
    by (simp add: loop_ev matched_def)
  have h4: "\<forall>e \<in> set (fst (snd ?run)). chunk_num e = Some (S (fmt_d 1)) \<longrightarrow>
           resp_headers (snd e) ''x-egnyte-upload-id'' \<noteq> None"
    by (simp add: loop_ev)
  have h5: "map (\<lambda>e. matched demo_digest e \<and> success (snd e)
               \<and> resp_headers (snd e) ''x-egnyte-upload-id'' \<noteq> None) (fst (snd ?run))
      = [True, True, True]"
    by (simp add: loop_ev matched_def)
  have N: "nat \<lceil>real_of_int ?sz / real_of_int (upload_chunk_size ?f)\<rceil> = 3"
    by (simp add: default_File_def get_file_size_def source_250MiB_def BytesIO_def)
  have cs: "upload_chunk_size ?f = 104857600" by (simp add: default_File_def)
  have sz: "?sz = 262144000"
    by (simp add: get_file_size_def source_250MiB_def BytesIO_def)
  note T = chunk_requests_when_replies_good[OF h1 h2 h3 h4, unfolded N]
  from T have ok: "fst ?run = Inr ()" and len: "length (fst (snd ?run)) = 3" by blast+
  from T have
    "req_headers (fst (fst (snd ?run) ! 0)) ''content-length''
       = Some (I (min (upload_chunk_size ?f) (?sz - int 0 * upload_chunk_size ?f)))"
    "req_headers (fst (fst (snd ?run) ! 1)) ''content-length''
       = Some (I (min (upload_chunk_size ?f) (?sz - int 1 * upload_chunk_size ?f)))"
    "req_headers (fst (fst (snd ?run) ! 2)) ''content-length''
       = Some (I (min (upload_chunk_size ?f) (?sz - int 2 * upload_chunk_size ?f)))"
    "last_marker (fst (snd ?run) ! 0) = None"
    "last_marker (fst (snd ?run) ! 1) = None"
    "last_marker (fst (snd ?run) ! 2) = Some (S ''true'')"
    by simp_all
  then have per:
    "req_headers (fst (fst (snd ?run) ! 0)) ''content-length'' = Some (I 104857600)"
    "req_headers (fst (fst (snd ?run) ! 1)) ''content-length'' = Some (I 104857600)"
    "req_headers (fst (fst (snd ?run) ! 2)) ''content-length'' = Some (I 52428800)"
    "last_marker (fst (snd ?run) ! 0) = None"
    "last_marker (fst (snd ?run) ! 1) = None"
    "last_marker (fst (snd ?run) ! 2) = Some (S ''true'')"
    unfolding cs sz by simp_all
  show ?thesis
    using h1 h2 h5 ok len per by simp
qed

text \<open>
  C8: \<open>write_to\<close> does close the response on each of its three exits (the iterator stops,
  the write of the sink raises, the iterator raises), but \<open>closed\<close> does not report true
  afterwards on the response the class wraps: \<open>closed\<close> calls \<open>self.response.closed()\<close>,
  which the \<open>Response\<close> of \<open>requests\<close> does not have, so the call raises
  \<open>AttributeError\<close>.
\<close>

theorem closed_after_write_to_raises:
  "write_to requests_api (bounded_write 10)
      \<lparr>response = \<lparr>s_headers = [], s_body = [''ab'', ''cd''], s_fault = False, s_closed = False\<rparr>\<rparr> []
     = (Inr (), \<lparr>response = \<lparr>s_headers = [], s_body = [], s_fault = False, s_closed = True\<rparr>\<rparr>, ''abcd'')
   \<and> closed' requests_api (fst (snd (write_to requests_api (bounded_write 10)
      \<lparr>response = \<lparr>s_headers = [], s_body = [''ab'', ''cd''], s_fault = False, s_closed = False\<rparr>\<rparr> [])))
     = Inl (AttributeError ''closed'')
   \<and> write_to requests_api (bounded_write 3)
      \<lparr>response = \<lparr>s_headers = [], s_body = [''ab'', ''cd''], s_fault = False, s_closed = False\<rparr>\<rparr> []
     = (Inl (IOError ''sink full''),
        \<lparr>response = \<lparr>s_headers = [], s_body = [], s_fault = False, s_closed = True\<rparr>\<rparr>, ''ab'')
   \<and> closed' requests_api (fst (snd (write_to requests_api (bounded_write 3)
      \<lparr>response = \<lparr>s_headers = [], s_body = [''ab'', ''cd''], s_fault = False, s_closed = False\<rparr>\<rparr> [])))
     = Inl (AttributeError ''closed'')
   \<and> write_to requests_api (bounded_write 10)
      \<lparr>response = \<lparr>s_headers = [], s_body = [''ab'', ''cd''], s_fault = True, s_closed = False\<rparr>\<rparr> []
     = (Inl (IOError ''connection broken''),
        \<lparr>response = \<lparr>s_headers = [], s_body = [], s_fault = True, s_closed = True\<rparr>\<rparr>, ''abcd'')
   \<and> closed' requests_api (fst (snd (write_to requests_api (bounded_write 10)
      \<lparr>response = \<lparr>s_headers = [], s_body = [''ab'', ''cd''], s_fault = True, s_closed = False\<rparr>\<rparr> [])))
     = Inl (AttributeError ''closed'')"
  by (simp add: dl_ev)

text \<open>
  C9, as stated, does not hold: \<open>FileDownload\<close> has no state of its own and no check
  for a closed stream. On a response that yields no bytes once closed, a read after
  \<open>close\<close> returns the empty string and the iteration in blocks just stops; neither
  fails.
\<close>

theorem read_after_close_counterexample:
  "closed' stream_api (snd (close stream_api
      \<lparr>response = \<lparr>s_headers = [], s_body = [''ab'', ''cd''], s_fault = False, s_closed = False\<rparr>\<rparr>))
     = Inr True
   \<and> fst (read stream_api (snd (close stream_api
      \<lparr>response = \<lparr>s_headers = [], s_body = [''ab'', ''cd''], s_fault = False, s_closed = False\<rparr>\<rparr>))
        None True) = Inr []
   \<and> iter_content stream_api (snd (close stream_api
      \<lparr>response = \<lparr>s_headers = [], s_body = [''ab'', ''cd''], s_fault = False, s_closed = False\<rparr>\<rparr>))
        (16 * 1024)
     = StopIteration \<lparr>s_headers = [], s_body = [''ab'', ''cd''], s_fault = False, s_closed = True\<rparr>"
  by (simp add: dl_ev)

text \<open>
  C9, amended: every method of \<open>FileDownload\<close> hands the call to the wrapped response
  and returns what it returns. \<open>closed\<close> reports what the response reports, \<open>close\<close> calls
  the \<open>close\<close> of the response each time it is called, and a read, an iteration or a
  second \<open>close\<close> after \<open>close\<close> fails exactly when that operation of the response
  fails on its closed state.
\<close>

theorem download_delegates:
  "closed' api d = closed_r api (response d)
   \<and> close api d = (fst (close_r api (response d)), d\<lparr>response := snd (close_r api (response d))\<rparr>)
   \<and> read api d amt decode_content =
       (fst (raw_read_r api amt decode_content (response d)),
        d\<lparr>response := snd (raw_read_r api amt decode_content (response d))\<rparr>)
   \<and> iter_FileDownload api d kwargs = iter_lines_r api kwargs (response d)
   \<and> iter_content api d chunk_size = iter_content_r api chunk_size (response d)
   \<and> fst (read api (snd (close api d)) amt decode_content)
       = fst (raw_read_r api amt decode_content (snd (close_r api (response d))))
   \<and> fst (close api (snd (close api d))) = fst (close_r api (snd (close_r api (response d))))"
  by (simp add: closed'_def close_def read_def iter_FileDownload_def iter_content_def
      split: prod.splits)

end
